theory Spec2Isabelle
  imports Complex_Main
begin

section \<open>JavaScript numbers\<close>

text \<open>
  The analytics code computes on JavaScript numbers, which are IEEE 754 binary64
  values. A value is modelled as a finite double, given by the real number it
  denotes, one of the two infinities, \<open>NaN\<close>, or \<open>undefined\<close> (what reading an array
  outside its bounds yields). Every arithmetic operation on finite values computes the
  exact real result and rounds it to the nearest double, ties to even, with gradual
  underflow below \<open>2 powi -1022\<close> and overflow to an infinity from \<open>2 ^ 1024\<close> on. The
  sign of zero is not modelled: a zero divisor is taken as positive zero.
\<close>

datatype jsnum = Fin real | PInf | NInf | NaN | Undefined

text \<open>
  The exponent of the unit in the last place of the doubles around \<open>x\<close>: 52 below the
  binary exponent of \<open>x\<close>, and never below -1074.
\<close>

definition bexp :: "real \<Rightarrow> int" where
  "bexp x = max \<lfloor>log 2 \<bar>x\<bar>\<rfloor> (- 1022) - 52"

text \<open>Rounding to the nearest integer, a tie to the even one.\<close>

definition rne :: "real \<Rightarrow> int" where
  "rne q =
     (let f = \<lfloor>q\<rfloor>; r = q - of_int f
      in if r < 1 / 2 then f else if 1 / 2 < r then f + 1
         else if even f then f else f + 1)"

definition rnd_fin :: "real \<Rightarrow> real" where
  "rnd_fin x = (if x = 0 then 0 else of_int (rne (x / 2 powi bexp x)) * 2 powi bexp x)"

definition rnd :: "real \<Rightarrow> jsnum" where
  "rnd x =
     (let y = rnd_fin x
      in if 2 ^ 1024 \<le> y then PInf else if y \<le> - (2 ^ 1024) then NInf else Fin y)"

text \<open>
  A decimal literal of the source, or a decimal number of the provider's JSON, denotes
  the double nearest to it.
\<close>

definition dbl :: "real \<Rightarrow> real" where
  "dbl x = rnd_fin x"

text \<open>The four operations and the square root on finite doubles.\<close>

definition dadd :: "real \<Rightarrow> real \<Rightarrow> jsnum" where
  "dadd a b = rnd (a + b)"

definition dmul :: "real \<Rightarrow> real \<Rightarrow> jsnum" where
  "dmul a b = rnd (a * b)"

definition ddiv :: "real \<Rightarrow> real \<Rightarrow> jsnum" where
  "ddiv a b = rnd (a / b)"


fun js_neg :: "jsnum \<Rightarrow> jsnum" where
  "js_neg (Fin a) = Fin (- a)"
| "js_neg PInf = NInf"
| "js_neg NInf = PInf"
| "js_neg NaN = NaN"
| "js_neg Undefined = NaN"

fun js_add :: "jsnum \<Rightarrow> jsnum \<Rightarrow> jsnum" where
  "js_add (Fin a) (Fin b) = dadd a b"
| "js_add (Fin a) PInf = PInf"
| "js_add (Fin a) NInf = NInf"
| "js_add PInf (Fin b) = PInf"
| "js_add PInf PInf = PInf"
| "js_add NInf (Fin b) = NInf"
| "js_add NInf NInf = NInf"
| "js_add _ _ = NaN"

definition js_sub :: "jsnum \<Rightarrow> jsnum \<Rightarrow> jsnum" where
  "js_sub a b = js_add a (js_neg b)"

text \<open>An infinity times a finite factor: the sign of the factor decides, zero gives NaN.\<close>

definition inf_signed :: "bool \<Rightarrow> real \<Rightarrow> jsnum" where
  "inf_signed pos b =
     (if b = 0 then NaN else if (0 < b) = pos then PInf else NInf)"

fun js_mul :: "jsnum \<Rightarrow> jsnum \<Rightarrow> jsnum" where
  "js_mul (Fin a) (Fin b) = dmul a b"
| "js_mul (Fin a) PInf = inf_signed True a"
| "js_mul (Fin a) NInf = inf_signed False a"
| "js_mul PInf (Fin b) = inf_signed True b"
| "js_mul NInf (Fin b) = inf_signed False b"
| "js_mul PInf PInf = PInf"
| "js_mul PInf NInf = NInf"
| "js_mul NInf PInf = NInf"
| "js_mul NInf NInf = PInf"
| "js_mul _ _ = NaN"

text \<open>Division. A zero divisor is taken as positive zero.\<close>

fun js_div :: "jsnum \<Rightarrow> jsnum \<Rightarrow> jsnum" where
  "js_div (Fin a) (Fin b) =
     (if b \<noteq> 0 then ddiv a b
      else if 0 < a then PInf else if a < 0 then NInf else NaN)"
| "js_div (Fin a) PInf = Fin 0"
| "js_div (Fin a) NInf = Fin 0"
| "js_div PInf (Fin b) = (if 0 \<le> b then PInf else NInf)"
| "js_div NInf (Fin b) = (if 0 \<le> b then NInf else PInf)"
| "js_div _ _ = NaN"

text \<open>The comparison \<open>a > b\<close>; false as soon as one side is NaN or undefined.\<close>

fun js_gt :: "jsnum \<Rightarrow> jsnum \<Rightarrow> bool" where
  "js_gt (Fin a) (Fin b) = (b < a)"
| "js_gt (Fin a) NInf = True"
| "js_gt PInf (Fin b) = True"
| "js_gt PInf NInf = True"
| "js_gt _ _ = False"

definition js_lt :: "jsnum \<Rightarrow> jsnum \<Rightarrow> bool" where
  "js_lt a b = js_gt b a"

text \<open>Truthiness, and the operator \<open>a || b\<close>.\<close>

fun js_truthy :: "jsnum \<Rightarrow> bool" where
  "js_truthy (Fin a) = (a \<noteq> 0)"
| "js_truthy PInf = True"
| "js_truthy NInf = True"
| "js_truthy NaN = False"
| "js_truthy Undefined = False"

definition js_or :: "jsnum \<Rightarrow> jsnum \<Rightarrow> jsnum" where
  "js_or a b = (if js_truthy a then a else b)"

fun js_abs :: "jsnum \<Rightarrow> jsnum" where
  "js_abs (Fin a) = Fin \<bar>a\<bar>"
| "js_abs PInf = PInf"
| "js_abs NInf = PInf"
| "js_abs NaN = NaN"
| "js_abs Undefined = NaN"



fun js_is_zero :: "jsnum \<Rightarrow> bool" where
  "js_is_zero (Fin a) = (a = 0)"
| "js_is_zero _ = False"



text \<open>The sum \<open>xs.reduce((sum, x) => sum + x, 0)\<close>, added up from the left.\<close>

definition js_sum :: "jsnum list \<Rightarrow> jsnum" where
  "js_sum xs = foldl js_add (Fin 0) xs"

text \<open>
  Reading \<open>xs[i]\<close>: \<open>undefined\<close> outside the bounds, also when the index is a number
  that is no index at all (a fraction, an infinity, NaN). \<open>xs.slice(-k)\<close> keeps the
  last \<open>k\<close> elements (all of them when the array is shorter); \<open>slice(-0)\<close> is
  \<open>slice(0)\<close>, the whole array.
\<close>

definition js_nth :: "jsnum list \<Rightarrow> int \<Rightarrow> jsnum" where
  "js_nth xs i = (if 0 \<le> i \<and> i < int (length xs) then xs ! nat i else Undefined)"


definition slice_last :: "nat \<Rightarrow> 'a list \<Rightarrow> 'a list" where
  "slice_last k xs = (if k = 0 then xs else drop (length xs - k) xs)"

section \<open>Candles and errors\<close>

text \<open>
  A candle as both analysis classes build it from the provider's quotes; its numbers
  are finite doubles. The technical-analysis class builds its candles without \<open>date\<close>
  and never reads it. A thrown \<open>Error\<close> is a value carrying its message.
\<close>

record candle =
  timestamp :: string
  date :: string
  open_price :: real
  high :: real
  low :: real
  close :: real
  volume :: real

datatype error = Error string

section \<open>Relative Strength Index\<close>

record rsi_result =
  current_value :: jsnum
  rsi_signal :: string
  strength :: jsnum
  historical_values :: "jsnum list"

text \<open>The per-step gain and loss of the first loop of \<open>calculateRSI\<close>.\<close>

definition changes :: "candle list \<Rightarrow> jsnum list" where
  "changes data =
     map (\<lambda>i. js_sub (Fin (close (data ! i))) (Fin (close (data ! (i - 1))))) [1..<length data]"

definition gains :: "candle list \<Rightarrow> jsnum list" where
  "gains data = map (\<lambda>change. if js_gt change (Fin 0) then change else Fin 0) (changes data)"

definition losses :: "candle list \<Rightarrow> jsnum list" where
  "losses data =
     map (\<lambda>change. if js_lt change (Fin 0) then js_abs change else Fin 0) (changes data)"

definition wilder :: "nat \<Rightarrow> jsnum \<Rightarrow> jsnum \<Rightarrow> jsnum" where
  "wilder period avg x =
     js_div (js_add (js_mul avg (Fin (real period - 1))) x) (Fin (real period))"

definition rsi_of :: "jsnum \<Rightarrow> jsnum \<Rightarrow> jsnum" where
  "rsi_of avgGain avgLoss =
     (let rs = js_div avgGain (js_or avgLoss (Fin (dbl (1 / 100))))
      in js_sub (Fin 100) (js_div (Fin 100) (js_add (Fin 1) rs)))"

text \<open>
  The second loop, from index \<open>period\<close> to the end of \<open>gains\<close>: it smooths both
  averages and pushes one RSI value per step. The argument is what is left of the
  gains and losses from index \<open>period\<close> on.
\<close>

fun rsi_loop :: "nat \<Rightarrow> jsnum \<Rightarrow> jsnum \<Rightarrow> (jsnum \<times> jsnum) list \<Rightarrow> jsnum list" where
  "rsi_loop period avgGain avgLoss [] = []"
| "rsi_loop period avgGain avgLoss ((g, l) # rest) =
     (let avgGain' = wilder period avgGain g;
          avgLoss' = wilder period avgLoss l
      in rsi_of avgGain' avgLoss' # rsi_loop period avgGain' avgLoss' rest)"

definition rsi_values :: "candle list \<Rightarrow> nat \<Rightarrow> jsnum list" where
  "rsi_values data period =
     (let avgGain = js_div (js_sum (take period (gains data))) (Fin (real period));
          avgLoss = js_div (js_sum (take period (losses data))) (Fin (real period))
      in rsi_loop period avgGain avgLoss (drop period (zip (gains data) (losses data))))"

definition calculateRSI :: "candle list \<Rightarrow> nat \<Rightarrow> error + rsi_result" where
  "calculateRSI data period =
     (if length data < period + 1
      then Inl (Error ''Insufficient data for RSI calculation'')
      else
        let rsiValues = rsi_values data period;
            currentRSI = js_nth rsiValues (int (length rsiValues) - 1)
        in Inr \<lparr> current_value = currentRSI,
                 rsi_signal =
                   (if js_gt currentRSI (Fin 70) then ''overbought''
                    else if js_lt currentRSI (Fin 30) then ''oversold''
                    else ''neutral''),
                 strength = js_div (js_abs (js_sub (Fin 50) currentRSI)) (Fin 50),
                 historical_values = slice_last 10 rsiValues \<rparr>)"

text \<open>A series of candles that differ in nothing but their closing price.\<close>

definition candle_at :: "string \<Rightarrow> real \<Rightarrow> candle" where
  "candle_at d c =
     \<lparr> timestamp = d, date = d, open_price = c, high = c, low = c, close = c, volume = 1 \<rparr>"

definition candles_of :: "real list \<Rightarrow> candle list" where
  "candles_of cs = map (candle_at ''2024-01-01'') cs"

section \<open>Moving averages and MACD\<close>

text \<open>
  \<open>calculateEMAValues\<close>: the first value is \<open>prices[0]\<close> (\<open>undefined\<close> for an empty
  array, so the result always has at least one element), every later one moves the
  previous value towards the price by the multiplier \<open>2 / (period + 1)\<close>.
\<close>

fun ema_loop :: "jsnum \<Rightarrow> jsnum \<Rightarrow> jsnum list \<Rightarrow> jsnum list" where
  "ema_loop multiplier prev [] = []"
| "ema_loop multiplier prev (p # ps) =
     (let ema = js_add (js_mul (js_sub p prev) multiplier) prev
      in ema # ema_loop multiplier ema ps)"

definition calculateEMAValues :: "jsnum list \<Rightarrow> int \<Rightarrow> jsnum list" where
  "calculateEMAValues prices period =
     (let multiplier = js_div (Fin 2) (js_add (Fin (real_of_int period)) (Fin 1))
      in js_nth prices 0 # ema_loop multiplier (js_nth prices 0) (tl prices))"

definition calculateTrendDirection :: "jsnum list \<Rightarrow> string" where
  "calculateTrendDirection values =
     (if length values < 2 then ''unknown''
      else
        let first = js_nth values 0;
            last_value = js_nth values (int (length values) - 1);
            change = js_div (js_sub last_value first) first
        in if js_gt change (Fin (dbl (2 / 100))) then ''up''
           else if js_lt change (Fin (- dbl (2 / 100))) then ''down''
           else ''sideways'')"

definition detectMACDCrossover :: "jsnum list \<Rightarrow> jsnum list \<Rightarrow> string" where
  "detectMACDCrossover macdLine signalLine =
     (if length macdLine < 2 \<or> length signalLine < 2 then ''none''
      else
        let currentMACD = js_nth macdLine (int (length macdLine) - 1);
            previousMACD = js_nth macdLine (int (length macdLine) - 2);
            currentSignal = js_nth signalLine (int (length signalLine) - 1);
            previousSignal = js_nth signalLine (int (length signalLine) - 2)
        in if js_lt previousMACD previousSignal \<and> js_gt currentMACD currentSignal
           then ''bullish''
           else if js_gt previousMACD previousSignal \<and> js_lt currentMACD currentSignal
           then ''bearish''
           else ''none'')"

definition detectMACDDivergence :: "candle list \<Rightarrow> jsnum list \<Rightarrow> string" where
  "detectMACDDivergence priceData macdLine =
     (if length priceData < 10 \<or> length macdLine < 10 then ''none''
      else
        let recentPrices = map (\<lambda>d. Fin (close d)) (slice_last 10 priceData);
            recentMACD = slice_last 10 macdLine;
            priceDirection = calculateTrendDirection recentPrices;
            macdDirection = calculateTrendDirection recentMACD
        in if priceDirection = ''up'' \<and> macdDirection = ''down'' then ''bearish''
           else if priceDirection = ''down'' \<and> macdDirection = ''up'' then ''bullish''
           else ''none'')"

record macd_result =
  macd_line :: jsnum
  signal_line :: jsnum
  histogram :: jsnum
  macd_signal :: string
  crossover :: string
  divergence :: string

text \<open>
  The MACD line: one entry for every \<open>i\<close> from \<open>slowPeriod - 1\<close> up to the last index
  of the fast average, pairing \<open>fastEMA[i]\<close> with
  \<open>slowEMA[i - (fastPeriod - slowPeriod)]\<close>, exactly the index the source computes.
\<close>

definition macd_line_values :: "jsnum list \<Rightarrow> int \<Rightarrow> int \<Rightarrow> jsnum list" where
  "macd_line_values closes fastPeriod slowPeriod =
     (let fastEMA = calculateEMAValues closes fastPeriod;
          slowEMA = calculateEMAValues closes slowPeriod
      in map (\<lambda>i. js_sub (js_nth fastEMA i) (js_nth slowEMA (i - (fastPeriod - slowPeriod))))
           [slowPeriod - 1 .. int (length fastEMA) - 1])"

definition calculateMACD :: "candle list \<Rightarrow> int \<Rightarrow> int \<Rightarrow> int \<Rightarrow> error + macd_result" where
  "calculateMACD data fastPeriod slowPeriod signalPeriod =
     (if int (length data) < slowPeriod + signalPeriod
      then Inl (Error ''Insufficient data for MACD calculation'')
      else
        let closes = map (\<lambda>d. Fin (close d)) data;
            macdLine = macd_line_values closes fastPeriod slowPeriod;
            signalLine = calculateEMAValues macdLine signalPeriod;
            histogram_values =
              map (\<lambda>i. js_sub (js_nth macdLine i) (js_nth signalLine (i - (signalPeriod - 1))))
                [signalPeriod - 1 .. int (length macdLine) - 1];
            currentMACD = js_nth macdLine (int (length macdLine) - 1);
            currentSignal = js_nth signalLine (int (length signalLine) - 1);
            currentHistogram = js_nth histogram_values (int (length histogram_values) - 1)
        in Inr \<lparr> macd_line = currentMACD,
                 signal_line = currentSignal,
                 histogram = currentHistogram,
                 macd_signal = (if js_gt currentMACD currentSignal then ''bullish'' else ''bearish''),
                 crossover = detectMACDCrossover macdLine signalLine,
                 divergence = detectMACDDivergence data macdLine \<rparr>)"

text \<open>
  The fifteen closes of the specification's RSI scenario, and the range an RSI value is
  expected in: a finite number between 0 and 100.
\<close>

definition scenario_a :: "candle list" where
  "scenario_a =
     candles_of [100, 102, 104, 103, 105, 107, 106, 108, 110, 109, 111, 113, 112, 114, 116]"

definition in_range :: "jsnum \<Rightarrow> bool" where
  "in_range v = (case v of Fin r \<Rightarrow> 0 \<le> r \<and> r \<le> 100 | _ \<Rightarrow> False)"

text \<open>
  Nine closes swinging between 1 and \<open>2 ^ 1023\<close>: finite doubles on which the sums of
  the gains and of the losses both overflow.
\<close>

definition swinging :: "candle list" where
  "swinging = candles_of [1, 2 ^ 1023, 1, 2 ^ 1023, 1, 2 ^ 1023, 1, 2 ^ 1023, 1]"

text \<open>
  A value that is a finite double between 0 and \<open>k\<close> times \<open>2 ^ 1000\<close>; the bound kept
  by the running averages of the RSI on prices up to \<open>2 ^ 1000\<close>.
\<close>

definition bnd :: "nat \<Rightarrow> jsnum \<Rightarrow> bool" where
  "bnd k v = (case v of Fin y \<Rightarrow> 0 \<le> y \<and> y \<le> real k * 2 ^ 1000 | _ \<Rightarrow> False)"

section \<open>Returns and their moments\<close>

definition calculateReturns :: "candle list \<Rightarrow> jsnum list" where
  "calculateReturns data =
     map (\<lambda>i. js_div (js_sub (Fin (close (data ! i))) (Fin (close (data ! (i - 1)))))
                    (Fin (close (data ! (i - 1)))))
       [1..<length data]"

text \<open>The mean as every function here writes it: \<open>reduce\<close> from 0, divided by the length.\<close>

definition mean_of :: "real list \<Rightarrow> jsnum" where
  "mean_of xs = js_div (js_sum (map Fin xs)) (Fin (real (length xs)))"

text \<open>\<open>Math.pow(x, 2)\<close> is the product of \<open>x\<close> with itself.\<close>

definition js_square :: "jsnum \<Rightarrow> jsnum" where
  "js_square x = js_mul x x"

definition calculateVariance :: "real list \<Rightarrow> jsnum" where
  "calculateVariance returns =
     (let mean = mean_of returns
      in js_div (foldl (\<lambda>sum ret. js_add sum (js_square (js_sub (Fin ret) mean))) (Fin 0) returns)
           (Fin (real (length returns))))"

text \<open>
  The sum inside \<open>calculateCovariance\<close> walks the first series and reads the second by
  the same index, which is \<open>undefined\<close> once the second series has ended.
\<close>

fun covariance_sum :: "jsnum \<Rightarrow> jsnum \<Rightarrow> jsnum \<Rightarrow> real list \<Rightarrow> real list \<Rightarrow> jsnum" where
  "covariance_sum mean1 mean2 acc [] ys = acc"
| "covariance_sum mean1 mean2 acc (x # xs) [] =
     covariance_sum mean1 mean2
       (js_add acc (js_mul (js_sub (Fin x) mean1) (js_sub Undefined mean2))) xs []"
| "covariance_sum mean1 mean2 acc (x # xs) (y # ys) =
     covariance_sum mean1 mean2
       (js_add acc (js_mul (js_sub (Fin x) mean1) (js_sub (Fin y) mean2))) xs ys"

definition calculateCovariance :: "real list \<Rightarrow> real list \<Rightarrow> jsnum" where
  "calculateCovariance returns1 returns2 =
     js_div (covariance_sum (mean_of returns1) (mean_of returns2) (Fin 0) returns1 returns2)
       (Fin (real (length returns1)))"

definition calculateBeta :: "real list \<Rightarrow> real list \<Rightarrow> jsnum" where
  "calculateBeta returns benchmarkReturns =
     (if length returns \<noteq> length benchmarkReturns \<or> length returns < 2 then Fin 1
      else
        let minLength = min (length returns) (length benchmarkReturns);
            assetReturns = slice_last minLength returns;
            marketReturns = slice_last minLength benchmarkReturns;
            covariance = calculateCovariance assetReturns marketReturns;
            marketVariance = calculateVariance marketReturns
        in if js_is_zero marketVariance then Fin 1 else js_div covariance marketVariance)"



text \<open>
  What the specification asks of beta on series of different lengths, in its own words:
  trim both to the shorter length from the most recent end, then covariance over
  variance.
\<close>

definition trimmed_beta_spec :: "real list \<Rightarrow> real list \<Rightarrow> jsnum" where
  "trimmed_beta_spec returns benchmarkReturns =
     (let n = min (length returns) (length benchmarkReturns);
          a = drop (length returns - n) returns;
          b = drop (length benchmarkReturns - n) benchmarkReturns
      in js_div (calculateCovariance a b) (calculateVariance b))"


section \<open>Value at risk and expected shortfall\<close>








section \<open>Maximum drawdown\<close>

text \<open>
  The variables of the loop in \<open>calculateMaxDrawdown\<close>. One pass of the loop body
  first raises the running peak, then measures the drawdown from it and records a new
  maximum; the start date is read at the peak index of that moment.
\<close>

record drawdown_state =
  maxDrawdown :: jsnum
  peak :: jsnum
  peakIndex :: nat
  troughIndex :: nat
  maxDrawdownStart :: string
  maxDrawdownEnd :: string

definition drawdown_step :: "candle list \<Rightarrow> drawdown_state \<Rightarrow> nat \<Rightarrow> drawdown_state" where
  "drawdown_step data s i =
     (let price = Fin (close (data ! i));
          s1 = (if js_gt price (peak s) then s\<lparr> peak := price, peakIndex := i \<rparr> else s);
          drawdown = js_div (js_sub (peak s1) price) (peak s1)
      in if js_gt drawdown (maxDrawdown s1)
         then s1\<lparr> maxDrawdown := drawdown,
                  troughIndex := i,
                  maxDrawdownStart := date (data ! peakIndex s1),
                  maxDrawdownEnd := date (data ! i) \<rparr>
         else s1)"

definition drawdown_init :: "candle list \<Rightarrow> drawdown_state" where
  "drawdown_init data =
     \<lparr> maxDrawdown = Fin 0,
       peak = js_nth (map (\<lambda>d. Fin (close d)) data) 0,
       peakIndex = 0,
       troughIndex = 0,
       maxDrawdownStart = [],
       maxDrawdownEnd = [] \<rparr>"

record drawdown_descriptor =
  max_drawdown_percent :: jsnum
  peak_price :: jsnum
  trough_price :: jsnum
  start_date :: string
  end_date :: string
  duration_days :: int

definition calculateMaxDrawdown :: "candle list \<Rightarrow> drawdown_descriptor" where
  "calculateMaxDrawdown data =
     (let prices = map (\<lambda>d. Fin (close d)) data;
          s = foldl (drawdown_step data) (drawdown_init data) [1..<length data]
      in \<lparr> max_drawdown_percent = js_mul (maxDrawdown s) (Fin 100),
           peak_price = peak s,
           trough_price = js_nth prices (int (troughIndex s)),
           start_date = maxDrawdownStart s,
           end_date = maxDrawdownEnd s,
           duration_days = int (troughIndex s) - int (peakIndex s) \<rparr>)"

text \<open>Dated candles for the examples: day and closing price.\<close>

definition dated :: "(string \<times> real) list \<Rightarrow> candle list" where
  "dated ps = map (\<lambda>(d, c). candle_at d c) ps"

definition dip_then_high :: "candle list" where
  "dip_then_high = dated [(''2024-01-01'', 100), (''2024-01-02'', 50), (''2024-01-03'', 200)]"

section \<open>The risk-metrics operation\<close>

text \<open>
  \<open>calculateRiskMetrics\<close> behind its collaborators: the cache lookup and the fetch of
  the candles are outside the model, which starts from the fetched series. The check on
  the series throws; the surrounding \<open>catch\<close> rethrows with the symbol in front. Past
  the check no statement throws. Of the result the record keeps the number of data
  points, the return series every metric is computed from, and the drawdown
  descriptor.
\<close>

record risk_metrics =
  data_points :: nat
  return_series :: "jsnum list"
  max_drawdown :: drawdown_descriptor

definition calculateRiskMetrics :: "string \<Rightarrow> candle list \<Rightarrow> error + risk_metrics" where
  "calculateRiskMetrics symbol historicalData =
     (if length historicalData < 10
      then Inl (Error (''Failed to calculate risk metrics for '' @ symbol
                       @ '': Error: Insufficient data for risk calculations''))
      else
        let returns = calculateReturns historicalData
        in Inr \<lparr> data_points = length historicalData,
                 return_series = returns,
                 max_drawdown = calculateMaxDrawdown historicalData \<rparr>)"

definition ten_candles :: "candle list" where
  "ten_candles = candles_of [100, 101, 102, 103, 104, 105, 106, 107, 108, 109]"

section \<open>Signal aggregation\<close>

















section \<open>Rounding to the nearest double\<close>

text \<open>The integer rounding is exact near an integer and monotone.\<close>

lemma rne_near:
  assumes "\<bar>q - of_int n\<bar> < 1 / 2"
  shows "rne q = n"
proof (cases "of_int n \<le> q")
  case True
  then have f: "\<lfloor>q\<rfloor> = n" using assms by (intro floor_unique) auto
  show ?thesis using assms True by (simp add: rne_def f Let_def)
next
  case False
  then have f: "\<lfloor>q\<rfloor> = n - 1" using assms by (intro floor_unique) auto
  have "1 / 2 < q - of_int (n - 1)" using assms False by auto
  then show ?thesis by (simp add: rne_def f Let_def)
qed

lemma rne_of_int: "rne (of_int n) = n"
  by (rule rne_near) simp

lemma rne_le:
  assumes "q \<le> of_int k"
  shows "rne q \<le> k"
proof (cases "q = of_int k")
  case True
  then show ?thesis by (simp add: rne_of_int)
next
  case False
  then have "q < of_int k" using assms by simp
  then have "\<lfloor>q\<rfloor> < k" by (simp add: floor_less_iff)
  then have "\<lfloor>q\<rfloor> + 1 \<le> k" by simp
  moreover have "rne q \<le> \<lfloor>q\<rfloor> + 1" by (simp add: rne_def Let_def)
  ultimately show ?thesis by linarith
qed

lemma rne_ge:
  assumes "of_int k \<le> q"
  shows "k \<le> rne q"
proof -
  have "k \<le> \<lfloor>q\<rfloor>" using assms by (simp add: le_floor_iff)
  moreover have "\<lfloor>q\<rfloor> \<le> rne q" by (simp add: rne_def Let_def)
  ultimately show ?thesis by linarith
qed

lemma two_powr_int: "(2::real) powr real_of_int k = 2 powi k"
  by (rule powr_real_of_int') simp_all

lemma floor_log2_iff:
  assumes "0 < y"
  shows "\<lfloor>log 2 y\<rfloor> = k \<longleftrightarrow> 2 powi k \<le> y \<and> y < 2 powi (k + 1)"
proof -
  have "\<lfloor>log 2 y\<rfloor> = k \<longleftrightarrow> 2 powr real_of_int k \<le> y \<and> y < 2 powr real_of_int (k + 1)"
    by (rule floor_log_eq_powr_iff) (use assms in simp_all)
  then show ?thesis
    by (simp only: two_powr_int)
qed

lemma floor_log2_bounds:
  assumes "x \<noteq> 0"
  shows "2 powi \<lfloor>log 2 \<bar>x\<bar>\<rfloor> \<le> \<bar>x\<bar>" "\<bar>x\<bar> < 2 powi (\<lfloor>log 2 \<bar>x\<bar>\<rfloor> + 1)"
proof -
  have pos: "0 < \<bar>x\<bar>" using assms by simp
  have "2 powi \<lfloor>log 2 \<bar>x\<bar>\<rfloor> \<le> \<bar>x\<bar> \<and> \<bar>x\<bar> < 2 powi (\<lfloor>log 2 \<bar>x\<bar>\<rfloor> + 1)"
    using floor_log2_iff[OF pos, of "\<lfloor>log 2 \<bar>x\<bar>\<rfloor>"] by blast
  then show "2 powi \<lfloor>log 2 \<bar>x\<bar>\<rfloor> \<le> \<bar>x\<bar>" "\<bar>x\<bar> < 2 powi (\<lfloor>log 2 \<bar>x\<bar>\<rfloor> + 1)"
    by blast+
qed

lemma floor_log2_eqI:
  assumes "2 powi k \<le> \<bar>x\<bar>" "\<bar>x\<bar> < 2 powi (k + 1)"
  shows "\<lfloor>log 2 \<bar>x\<bar>\<rfloor> = k"
proof -
  have pos: "0 < \<bar>x\<bar>"
    using assms(1) zero_less_power_int[of "2::real" k] by linarith
  show ?thesis
    using floor_log2_iff[OF pos, of k] assms by blast
qed

lemma floor_log2_less:
  assumes "x \<noteq> 0" "\<bar>x\<bar> < 2 powi k"
  shows "\<lfloor>log 2 \<bar>x\<bar>\<rfloor> < k"
proof (rule ccontr)
  assume "\<not> \<lfloor>log 2 \<bar>x\<bar>\<rfloor> < k"
  then have "k \<le> \<lfloor>log 2 \<bar>x\<bar>\<rfloor>" by simp
  then have "(2::real) powi k \<le> 2 powi \<lfloor>log 2 \<bar>x\<bar>\<rfloor>"
    by (intro power_int_increasing) simp_all
  then show False
    using floor_log2_bounds(1)[OF assms(1)] assms(2) by linarith
qed

lemma bexp_eqI:
  assumes "2 powi (e + 52) \<le> \<bar>x\<bar>" "\<bar>x\<bar> < 2 powi (e + 53)" "- 1074 \<le> e"
  shows "bexp x = e"
proof -
  have "\<bar>x\<bar> < 2 powi (e + 52 + 1)" using assms(2) by (simp add: add.commute add.left_commute)
  then have "\<lfloor>log 2 \<bar>x\<bar>\<rfloor> = e + 52" using assms(1) by (intro floor_log2_eqI)
  then show ?thesis using assms(3) by (simp add: bexp_def)
qed

lemma bexp_subnormal:
  assumes "x \<noteq> 0" "\<bar>x\<bar> < 2 powi (- 1022)"
  shows "bexp x = - 1074"
proof -
  have "\<lfloor>log 2 \<bar>x\<bar>\<rfloor> < - 1022" using assms by (rule floor_log2_less)
  then show ?thesis by (simp add: bexp_def)
qed

lemma bexp_le:
  assumes "x \<noteq> 0" "\<bar>x\<bar> < 2 powi (j + 53)" "- 1074 \<le> j"
  shows "bexp x \<le> j"
proof -
  have "\<lfloor>log 2 \<bar>x\<bar>\<rfloor> < j + 53" using assms(1,2) by (rule floor_log2_less)
  then show ?thesis using assms(3) by (simp add: bexp_def)
qed

lemma bexp_ge: "- 1074 \<le> bexp x"
  by (simp add: bexp_def)

lemma bexp_lower:
  assumes "x \<noteq> 0" "- 1074 < bexp x"
  shows "2 powi (bexp x + 52) \<le> \<bar>x\<bar>"
proof -
  have "bexp x = \<lfloor>log 2 \<bar>x\<bar>\<rfloor> - 52" using assms(2) by (auto simp: bexp_def max_def split: if_splits)
  then have "bexp x + 52 = \<lfloor>log 2 \<bar>x\<bar>\<rfloor>" by simp
  then show ?thesis using floor_log2_bounds(1)[OF assms(1)] by simp
qed

text \<open>Rounding does not cross a point of a grid at least as coarse as its own.\<close>

lemma grid_pow:
  assumes "e \<le> j"
  shows "(2::real) powi j = 2 ^ nat (j - e) * 2 powi e"
proof -
  have "(2::real) powi j = 2 powi (j - e) * 2 powi e"
    by (simp flip: power_int_add)
  moreover have "(2::real) powi (j - e) = 2 ^ nat (j - e)"
    using assms by (simp add: power_int_def)
  ultimately show ?thesis by simp
qed

lemma grid_int:
  assumes "e \<le> j"
  shows "of_int n * 2 powi j / 2 powi e = (of_int (n * 2 ^ nat (j - e)) :: real)"
  by (simp add: grid_pow[OF assms])

lemma grid_back:
  assumes "e \<le> j"
  shows "(of_int (n * 2 ^ nat (j - e)) :: real) * 2 powi e = of_int n * 2 powi j"
  by (simp add: grid_pow[OF assms])

lemma rnd_fin_le_grid:
  assumes "x \<le> of_int n * 2 powi j" "\<bar>x\<bar> < 2 powi (j + 53)" "- 1074 \<le> j"
  shows "rnd_fin x \<le> of_int n * 2 powi j"
proof (cases "x = 0")
  case True
  then show ?thesis using assms(1) by (simp add: rnd_fin_def)
next
  case False
  let ?e = "bexp x"
  have e: "?e \<le> j" using False assms(2,3) by (rule bexp_le)
  have p: "(0::real) < 2 powi ?e" by simp
  have "x / 2 powi ?e \<le> of_int n * 2 powi j / 2 powi ?e"
    using assms(1) p by (simp add: divide_right_mono)
  then have "x / 2 powi ?e \<le> of_int (n * 2 ^ nat (j - ?e))"
    by (simp only: grid_int[OF e])
  then have "rne (x / 2 powi ?e) \<le> n * 2 ^ nat (j - ?e)" by (rule rne_le)
  then have "(of_int (rne (x / 2 powi ?e)) :: real) \<le> of_int (n * 2 ^ nat (j - ?e))"
    by (simp only: of_int_le_iff)
  then have "(of_int (rne (x / 2 powi ?e)) :: real) * 2 powi ?e
      \<le> of_int (n * 2 ^ nat (j - ?e)) * 2 powi ?e"
    using p by (simp add: mult_right_mono)
  then have "(of_int (rne (x / 2 powi ?e)) :: real) * 2 powi ?e \<le> of_int n * 2 powi j"
    by (simp only: grid_back[OF e])
  then show ?thesis using False by (simp only: rnd_fin_def if_False)
qed

lemma rnd_fin_ge_grid:
  assumes "of_int n * 2 powi j \<le> x" "\<bar>x\<bar> < 2 powi (j + 53)" "- 1074 \<le> j"
  shows "of_int n * 2 powi j \<le> rnd_fin x"
proof (cases "x = 0")
  case True
  then show ?thesis using assms(1) by (simp add: rnd_fin_def)
next
  case False
  let ?e = "bexp x"
  have e: "?e \<le> j" using False assms(2,3) by (rule bexp_le)
  have p: "(0::real) < 2 powi ?e" by simp
  have "of_int n * 2 powi j / 2 powi ?e \<le> x / 2 powi ?e"
    using assms(1) p by (simp add: divide_right_mono)
  then have "of_int (n * 2 ^ nat (j - ?e)) \<le> x / 2 powi ?e"
    by (simp only: grid_int[OF e])
  then have "n * 2 ^ nat (j - ?e) \<le> rne (x / 2 powi ?e)" by (rule rne_ge)
  then have "(of_int (n * 2 ^ nat (j - ?e)) :: real) \<le> of_int (rne (x / 2 powi ?e))"
    by (simp only: of_int_le_iff)
  then have "(of_int (n * 2 ^ nat (j - ?e)) :: real) * 2 powi ?e
      \<le> of_int (rne (x / 2 powi ?e)) * 2 powi ?e"
    using p by (simp add: mult_right_mono)
  then have "(of_int n :: real) * 2 powi j \<le> of_int (rne (x / 2 powi ?e)) * 2 powi ?e"
    by (simp only: grid_back[OF e])
  then show ?thesis using False by (simp only: rnd_fin_def if_False)
qed

lemma rnd_fin_nonneg: "0 \<le> x \<Longrightarrow> 0 \<le> rnd_fin x"
proof (cases "x = 0")
  case True
  then show ?thesis by (simp add: rnd_fin_def)
next
  case False
  assume "0 \<le> x"
  then have "of_int 0 \<le> x / 2 powi bexp x" by simp
  then have "0 \<le> rne (x / 2 powi bexp x)" by (rule rne_ge)
  then show ?thesis using False by (simp add: rnd_fin_def)
qed

lemma rnd_fin_nonpos: "x \<le> 0 \<Longrightarrow> rnd_fin x \<le> 0"
proof (cases "x = 0")
  case True
  then show ?thesis by (simp add: rnd_fin_def)
next
  case False
  assume "x \<le> 0"
  then have "x / 2 powi bexp x \<le> of_int 0" by (simp add: divide_nonpos_pos)
  then have "rne (x / 2 powi bexp x) \<le> 0" by (rule rne_le)
  then have "(of_int (rne (x / 2 powi bexp x)) :: real) \<le> 0" by simp
  then have "(of_int (rne (x / 2 powi bexp x)) :: real) * 2 powi bexp x \<le> 0"
    by (intro mult_nonpos_nonneg) simp_all
  then show ?thesis using False by (simp add: rnd_fin_def)
qed

lemma rnd_fin_ge_one:
  assumes "1 \<le> x"
  shows "1 \<le> rnd_fin x"
proof (cases "bexp x \<le> 0")
  case True
  have x0: "x \<noteq> 0" using assms by simp
  have "\<lfloor>log 2 \<bar>x\<bar>\<rfloor> \<le> 52" using True by (simp add: bexp_def)
  then have "\<bar>x\<bar> < 2 powi (0 + 53)"
    using floor_log2_bounds(2)[OF x0] power_int_increasing[of "\<lfloor>log 2 \<bar>x\<bar>\<rfloor> + 1" 53 "2::real"]
    by simp
  then have "of_int 1 * 2 powi 0 \<le> rnd_fin x"
    using assms by (intro rnd_fin_ge_grid) simp_all
  then show ?thesis by simp
next
  case False
  have x0: "x \<noteq> 0" using assms by simp
  let ?e = "bexp x"
  have e1: "1 \<le> ?e" using False by simp
  then have lo: "2 powi (?e + 52) \<le> \<bar>x\<bar>" using x0 by (intro bexp_lower) simp_all
  have up: "\<bar>x\<bar> < 2 powi (?e + 53)"
  proof -
    have "?e = \<lfloor>log 2 \<bar>x\<bar>\<rfloor> - 52" using e1 by (auto simp: bexp_def max_def split: if_splits)
    then have "\<lfloor>log 2 \<bar>x\<bar>\<rfloor> + 1 = ?e + 53" by simp
    then show ?thesis using floor_log2_bounds(2)[OF x0] by (simp only:)
  qed
  have "of_int (2 ^ 52) * 2 powi ?e \<le> x"
    using lo assms by (simp add: power_int_add)
  then have "of_int (2 ^ 52) * 2 powi ?e \<le> rnd_fin x"
    using up bexp_ge[of x] by (intro rnd_fin_ge_grid) simp_all
  moreover have "(1::real) \<le> of_int (2 ^ 52) * 2 powi ?e"
  proof -
    have "(2::real) powi 0 \<le> 2 powi ?e" using e1 by (intro power_int_increasing) simp_all
    then have "(1::real) \<le> 2 powi ?e" by simp
    then have "1 * 1 \<le> (of_int (2 ^ 52) :: real) * 2 powi ?e"
      by (intro mult_mono) simp_all
    then show ?thesis by simp
  qed
  ultimately show ?thesis by linarith
qed

text \<open>Evaluation at a concrete argument, strictly inside half a unit of the last place.\<close>

lemma rnd_fin_eqI:
  assumes "x \<noteq> 0" "bexp x = e" "\<bar>x / 2 powi e - of_int n\<bar> < 1 / 2"
  shows "rnd_fin x = of_int n * 2 powi e"
  using assms by (simp add: rnd_fin_def rne_near)

lemma rnd_FinI:
  assumes "rnd_fin x = y" "\<bar>y\<bar> < 2 ^ 1024"
  shows "rnd x = Fin y"
  using assms by (auto simp: rnd_def Let_def)

lemma rnd_zero: "rnd 0 = Fin 0"
  by (simp add: rnd_def rnd_fin_def)

lemma powi_neg_shift: "(2::real) powi (- int k + m) = 2 powi m / 2 ^ k"
proof -
  have "(2::real) powi (- int k + m) = 2 powi (- int k) * 2 powi m"
    by (rule power_int_add) simp
  moreover have "(2::real) powi (- int k) = inverse (2 ^ k)"
    by (simp add: power_int_minus)
  ultimately show ?thesis by (simp add: field_simps)
qed

lemma powi_pos_shift: "(2::real) powi (int k + m) = 2 powi m * 2 ^ k"
proof -
  have "(2::real) powi (int k + m) = 2 powi (int k) * 2 powi m"
    by (rule power_int_add) simp
  then show ?thesis by simp
qed

lemma bexp_eval_neg:
  assumes "x \<noteq> 0" "\<bar>x\<bar> * 2 ^ k < 2 ^ 53" "2 ^ 52 \<le> \<bar>x\<bar> * 2 ^ k \<or> k = 1074" "k \<le> 1074"
  shows "bexp x = - int k"
proof -
  let ?e = "- int k"
  have p0: "(0::real) < 2 ^ k" by simp
  have "\<bar>x\<bar> < 2 powi 53 / 2 ^ k"
    using assms(2) p0 by (simp add: pos_less_divide_eq)
  then have up: "\<bar>x\<bar> < 2 powi (?e + 53)"
    by (simp only: powi_neg_shift)
  show ?thesis
  proof (cases "2 ^ 52 \<le> \<bar>x\<bar> * 2 ^ k")
    case True
    then have "2 powi 52 / 2 ^ k \<le> \<bar>x\<bar>"
      using p0 by (simp add: pos_divide_le_eq)
    then have "2 powi (?e + 52) \<le> \<bar>x\<bar>"
      by (simp only: powi_neg_shift)
    then show ?thesis using up assms(4) by (intro bexp_eqI) simp_all
  next
    case False
    then have k: "k = 1074" using assms(3) by simp
    have "\<bar>x\<bar> < 2 powi 52 / 2 ^ k"
      using False p0 by (simp add: pos_less_divide_eq)
    then have "\<bar>x\<bar> < 2 powi (?e + 52)"
      by (simp only: powi_neg_shift)
    then have "\<bar>x\<bar> < 2 powi (- 1022)" by (simp add: k)
    then show ?thesis using assms(1) k by (simp add: bexp_subnormal)
  qed
qed

lemma rnd_eval_neg_rne:
  assumes "x \<noteq> 0" "\<bar>x\<bar> * 2 ^ k < 2 ^ 53" "2 ^ 52 \<le> \<bar>x\<bar> * 2 ^ k \<or> k = 1074" "k \<le> 1074"
    and "rne (x * 2 ^ k) = n" "\<bar>real_of_int n\<bar> \<le> 2 ^ 53"
  shows "rnd x = Fin (of_int n / 2 ^ k)"
proof -
  let ?e = "- int k"
  have pk: "(2::real) powi ?e = 1 / 2 ^ k"
    using powi_neg_shift[of k 0] by simp
  have be: "bexp x = ?e" using assms(1-4) by (rule bexp_eval_neg)
  have "x / 2 powi ?e = x * 2 ^ k" by (simp add: pk)
  then have "rnd_fin x = of_int n * 2 powi ?e"
    using assms(1,5) be by (simp add: rnd_fin_def)
  then have r: "rnd_fin x = of_int n / 2 ^ k" by (simp add: pk)
  have "\<bar>real_of_int n / 2 ^ k\<bar> = \<bar>real_of_int n\<bar> / 2 ^ k" by (simp add: abs_divide)
  also have "\<dots> \<le> \<bar>real_of_int n\<bar> / 1"
    by (intro divide_left_mono) simp_all
  finally have "\<bar>real_of_int n / 2 ^ k\<bar> \<le> 2 ^ 53" using assms(6) by simp
  moreover have "(2::real) ^ 53 < 2 ^ 1024" by simp
  ultimately have "\<bar>real_of_int n / 2 ^ k\<bar> < 2 ^ 1024" by linarith
  then show ?thesis using r by (intro rnd_FinI) simp_all
qed

lemma rnd_eval_neg:
  assumes "x \<noteq> 0" "\<bar>x\<bar> * 2 ^ k < 2 ^ 53" "2 ^ 52 \<le> \<bar>x\<bar> * 2 ^ k \<or> k = 1074" "k \<le> 1074"
    and "\<bar>x * 2 ^ k - of_int n\<bar> * 2 < 1"
  shows "rnd x = Fin (of_int n / 2 ^ k)"
proof -
  have "\<bar>x * 2 ^ k - of_int n\<bar> < 1 / 2" using assms(5) by simp
  then have r: "rne (x * 2 ^ k) = n" by (rule rne_near)
  define y where "y = x * 2 ^ k"
  have "\<bar>y - of_int n\<bar> * 2 < 1" using assms(5) by (simp only: y_def)
  then have "\<bar>y - of_int n\<bar> < 1" by simp
  moreover have "\<bar>real_of_int n\<bar> \<le> \<bar>y\<bar> + \<bar>y - of_int n\<bar>"
    by (simp add: abs_if)
  ultimately have "\<bar>real_of_int n\<bar> < \<bar>y\<bar> + 1" by simp
  moreover have "\<bar>y\<bar> = \<bar>x\<bar> * 2 ^ k" by (simp add: y_def abs_mult)
  ultimately have "\<bar>real_of_int n\<bar> < \<bar>x\<bar> * 2 ^ k + 1" by simp
  then have "\<bar>real_of_int n\<bar> < 2 ^ 53 + 1" using assms(2) by linarith
  then have "real_of_int \<bar>n\<bar> < real_of_int (2 ^ 53 + 1)" by simp
  then have "\<bar>n\<bar> < 2 ^ 53 + 1" by (simp only: of_int_less_iff)
  then have "\<bar>n\<bar> \<le> 2 ^ 53" by simp
  then have "real_of_int \<bar>n\<bar> \<le> real_of_int (2 ^ 53)" by (simp only: of_int_le_iff)
  then have "\<bar>real_of_int n\<bar> \<le> 2 ^ 53" by simp
  with assms(1-4) r show ?thesis by (rule rnd_eval_neg_rne)
qed



lemma rnd_Fin_D: "rnd x = Fin y \<Longrightarrow> rnd_fin x = y"
  by (auto simp: rnd_def Let_def split: if_splits)

lemma rnd_fin_eval_pos:
  assumes "2 ^ 52 * 2 ^ k \<le> \<bar>x\<bar>" "\<bar>x\<bar> < 2 ^ 53 * 2 ^ k"
    and "\<bar>x - of_int n * 2 ^ k\<bar> * 2 < 2 ^ k"
  shows "rnd_fin x = of_int n * 2 ^ k"
proof -
  let ?e = "int k"
  have pk: "(2::real) powi ?e = 2 ^ k" by simp
  have p0: "(0::real) < 2 ^ k" by simp
  have "(0::real) < 2 ^ 52 * 2 ^ k" by simp
  then have "0 < \<bar>x\<bar>" using assms(1) by linarith
  then have x0: "x \<noteq> 0" by simp
  have lo: "2 powi (?e + 52) \<le> \<bar>x\<bar>"
    using assms(1) by (simp only: powi_pos_shift) simp
  have up: "\<bar>x\<bar> < 2 powi (?e + 53)"
    using assms(2) by (simp only: powi_pos_shift) simp
  have be: "bexp x = ?e" using lo up by (intro bexp_eqI) simp_all
  have "x / 2 ^ k - of_int n = (x - of_int n * 2 ^ k) / 2 ^ k"
    by (simp add: field_simps)
  then have "\<bar>x / 2 ^ k - of_int n\<bar> = \<bar>x - of_int n * 2 ^ k\<bar> / 2 ^ k"
    by (simp add: abs_divide)
  moreover have "\<bar>x - of_int n * 2 ^ k\<bar> / 2 ^ k < 1 / 2"
    using assms(3) p0 by (simp add: pos_divide_less_eq)
  ultimately have "\<bar>x / 2 powi ?e - of_int n\<bar> < 1 / 2" by (simp add: pk)
  then have "rnd_fin x = of_int n * 2 powi ?e"
    using x0 be by (intro rnd_fin_eqI)
  then show ?thesis by (simp add: pk)
qed

lemma rnd_eval_pos:
  assumes "2 ^ 52 * 2 ^ k \<le> \<bar>x\<bar>" "\<bar>x\<bar> < 2 ^ 53 * 2 ^ k"
    and "\<bar>x - of_int n * 2 ^ k\<bar> * 2 < 2 ^ k" "\<bar>of_int n * 2 ^ k\<bar> < (2::real) ^ 1024"
  shows "rnd x = Fin (of_int n * 2 ^ k)"
  using rnd_fin_eval_pos[OF assms(1-3)] assms(4) by (intro rnd_FinI) simp_all

lemma rnd_eval_PInf:
  assumes "2 ^ 52 * 2 ^ k \<le> \<bar>x\<bar>" "\<bar>x\<bar> < 2 ^ 53 * 2 ^ k"
    and "\<bar>x - of_int n * 2 ^ k\<bar> * 2 < 2 ^ k" "(2::real) ^ 1024 \<le> of_int n * 2 ^ k"
  shows "rnd x = PInf"
  using rnd_fin_eval_pos[OF assms(1-3)] assms(4) by (simp add: rnd_def Let_def)

section \<open>Evaluation steps\<close>





lemma dbl_step_2: "dbl (1 / 100) = 5764607523034235 / 576460752303423488"
proof -
  have "rnd (1 / 100) = Fin (real_of_int 5764607523034235 / 2 ^ 59)"
    by (rule rnd_eval_neg) simp_all
  from rnd_Fin_D[OF this] show ?thesis by (simp add: dbl_def)
qed













































lemma dadd_step_17: "dadd 0 0 = Fin 0"
  by (simp add: dadd_def rnd_zero)








lemma dadd_step_21: "dadd 0 1 = Fin 1"
proof -
  have "rnd (0 + 1) = Fin (real_of_int 4503599627370496 / 2 ^ 52)"
    by (rule rnd_eval_neg) simp_all
  then show ?thesis by (simp add: dadd_def)
qed











lemma dadd_step_26: "dadd 0 2 = Fin 2"
proof -
  have "rnd (0 + 2) = Fin (real_of_int 4503599627370496 / 2 ^ 51)"
    by (rule rnd_eval_neg) simp_all
  then show ?thesis by (simp add: dadd_def)
qed

lemma dadd_step_27: "dadd 2 4 = Fin 6"
proof -
  have "rnd (2 + 4) = Fin (real_of_int 6755399441055744 / 2 ^ 50)"
    by (rule rnd_eval_neg) simp_all
  then show ?thesis by (simp add: dadd_def)
qed

lemma ddiv_step_13: "ddiv 6 2 = Fin 3"
proof -
  have "rnd (6 / 2) = Fin (real_of_int 6755399441055744 / 2 ^ 51)"
    by (rule rnd_eval_neg) simp_all
  then show ?thesis by (simp add: ddiv_def)
qed

lemma dadd_step_28: "dadd 1 2 = Fin 3"
proof -
  have "rnd (1 + 2) = Fin (real_of_int 6755399441055744 / 2 ^ 51)"
    by (rule rnd_eval_neg) simp_all
  then show ?thesis by (simp add: dadd_def)
qed

lemma ddiv_step_14: "ddiv 3 2 = Fin (3 / 2)"
proof -
  have "rnd (3 / 2) = Fin (real_of_int 6755399441055744 / 2 ^ 52)"
    by (rule rnd_eval_neg) simp_all
  then show ?thesis by (simp add: ddiv_def)
qed

lemma dadd_step_29: "dadd 2 (- 3) = Fin (- 1)"
proof -
  have "rnd (2 + (- 3)) = Fin (real_of_int (- 4503599627370496) / 2 ^ 52)"
    by (rule rnd_eval_neg) simp_all
  then show ?thesis by (simp add: dadd_def)
qed

lemma dadd_step_30: "dadd 1 (- (3 / 2)) = Fin (- (1 / 2))"
proof -
  have "rnd (1 + (- (3 / 2))) = Fin (real_of_int (- 4503599627370496) / 2 ^ 53)"
    by (rule rnd_eval_neg) simp_all
  then show ?thesis by (simp add: dadd_def)
qed

lemma dmul_step_17: "dmul (- 1) (- (1 / 2)) = Fin (1 / 2)"
proof -
  have "rnd ((- 1) * (- (1 / 2))) = Fin (real_of_int 4503599627370496 / 2 ^ 53)"
    by (rule rnd_eval_neg) simp_all
  then show ?thesis by (simp add: dmul_def)
qed

lemma dadd_step_31: "dadd 0 (1 / 2) = Fin (1 / 2)"
proof -
  have "rnd (0 + (1 / 2)) = Fin (real_of_int 4503599627370496 / 2 ^ 53)"
    by (rule rnd_eval_neg) simp_all
  then show ?thesis by (simp add: dadd_def)
qed

lemma dadd_step_32: "dadd 4 (- 3) = Fin 1"
proof -
  have "rnd (4 + (- 3)) = Fin (real_of_int 4503599627370496 / 2 ^ 52)"
    by (rule rnd_eval_neg) simp_all
  then show ?thesis by (simp add: dadd_def)
qed

lemma dadd_step_33: "dadd 2 (- (3 / 2)) = Fin (1 / 2)"
proof -
  have "rnd (2 + (- (3 / 2))) = Fin (real_of_int 4503599627370496 / 2 ^ 53)"
    by (rule rnd_eval_neg) simp_all
  then show ?thesis by (simp add: dadd_def)
qed

lemma dmul_step_18: "dmul 1 (1 / 2) = Fin (1 / 2)"
proof -
  have "rnd (1 * (1 / 2)) = Fin (real_of_int 4503599627370496 / 2 ^ 53)"
    by (rule rnd_eval_neg) simp_all
  then show ?thesis by (simp add: dmul_def)
qed

lemma dadd_step_34: "dadd (1 / 2) (1 / 2) = Fin 1"
proof -
  have "rnd ((1 / 2) + (1 / 2)) = Fin (real_of_int 4503599627370496 / 2 ^ 52)"
    by (rule rnd_eval_neg) simp_all
  then show ?thesis by (simp add: dadd_def)
qed

lemma ddiv_step_15: "ddiv 1 2 = Fin (1 / 2)"
proof -
  have "rnd (1 / 2) = Fin (real_of_int 4503599627370496 / 2 ^ 53)"
    by (rule rnd_eval_neg) simp_all
  then show ?thesis by (simp add: ddiv_def)
qed

lemma dmul_step_19: "dmul (- (1 / 2)) (- (1 / 2)) = Fin (1 / 4)"
proof -
  have "rnd ((- (1 / 2)) * (- (1 / 2))) = Fin (real_of_int 4503599627370496 / 2 ^ 54)"
    by (rule rnd_eval_neg) simp_all
  then show ?thesis by (simp add: dmul_def)
qed

lemma dadd_step_35: "dadd 0 (1 / 4) = Fin (1 / 4)"
proof -
  have "rnd (0 + (1 / 4)) = Fin (real_of_int 4503599627370496 / 2 ^ 54)"
    by (rule rnd_eval_neg) simp_all
  then show ?thesis by (simp add: dadd_def)
qed

lemma dmul_step_20: "dmul (1 / 2) (1 / 2) = Fin (1 / 4)"
proof -
  have "rnd ((1 / 2) * (1 / 2)) = Fin (real_of_int 4503599627370496 / 2 ^ 54)"
    by (rule rnd_eval_neg) simp_all
  then show ?thesis by (simp add: dmul_def)
qed

lemma dadd_step_36: "dadd (1 / 4) (1 / 4) = Fin (1 / 2)"
proof -
  have "rnd ((1 / 4) + (1 / 4)) = Fin (real_of_int 4503599627370496 / 2 ^ 53)"
    by (rule rnd_eval_neg) simp_all
  then show ?thesis by (simp add: dadd_def)
qed

lemma ddiv_step_16: "ddiv (1 / 2) 2 = Fin (1 / 4)"
proof -
  have "rnd ((1 / 2) / 2) = Fin (real_of_int 4503599627370496 / 2 ^ 54)"
    by (rule rnd_eval_neg) simp_all
  then show ?thesis by (simp add: ddiv_def)
qed

lemma ddiv_step_17: "ddiv (1 / 2) (1 / 4) = Fin 2"
proof -
  have "rnd ((1 / 2) / (1 / 4)) = Fin (real_of_int 4503599627370496 / 2 ^ 51)"
    by (rule rnd_eval_neg) simp_all
  then show ?thesis by (simp add: ddiv_def)
qed

lemma dadd_step_37: "dadd 89884656743115795386465259539451236680898848947115328636715040578866337902750481566354238661203768010560056939935696678829394884407208311246423715319737062188883946712432742638151109800623047059726541476042502884419075341171231440736956555270413618581675255342293149119973622969239858152417678164812112068608 (- 1) = Fin 89884656743115795386465259539451236680898848947115328636715040578866337902750481566354238661203768010560056939935696678829394884407208311246423715319737062188883946712432742638151109800623047059726541476042502884419075341171231440736956555270413618581675255342293149119973622969239858152417678164812112068608"
proof -
  have "rnd (89884656743115795386465259539451236680898848947115328636715040578866337902750481566354238661203768010560056939935696678829394884407208311246423715319737062188883946712432742638151109800623047059726541476042502884419075341171231440736956555270413618581675255342293149119973622969239858152417678164812112068608 + (- 1)) = Fin (real_of_int 9007199254740992 * 2 ^ 970)"
    by (rule rnd_eval_pos) simp_all
  then show ?thesis by (simp add: dadd_def)
qed

lemma dadd_step_38: "dadd 1 (- 89884656743115795386465259539451236680898848947115328636715040578866337902750481566354238661203768010560056939935696678829394884407208311246423715319737062188883946712432742638151109800623047059726541476042502884419075341171231440736956555270413618581675255342293149119973622969239858152417678164812112068608) = Fin (- 89884656743115795386465259539451236680898848947115328636715040578866337902750481566354238661203768010560056939935696678829394884407208311246423715319737062188883946712432742638151109800623047059726541476042502884419075341171231440736956555270413618581675255342293149119973622969239858152417678164812112068608)"
proof -
  have "rnd (1 + (- 89884656743115795386465259539451236680898848947115328636715040578866337902750481566354238661203768010560056939935696678829394884407208311246423715319737062188883946712432742638151109800623047059726541476042502884419075341171231440736956555270413618581675255342293149119973622969239858152417678164812112068608)) = Fin (real_of_int (- 9007199254740992) * 2 ^ 970)"
    by (rule rnd_eval_pos) simp_all
  then show ?thesis by (simp add: dadd_def)
qed

lemma dadd_step_39: "dadd 0 89884656743115795386465259539451236680898848947115328636715040578866337902750481566354238661203768010560056939935696678829394884407208311246423715319737062188883946712432742638151109800623047059726541476042502884419075341171231440736956555270413618581675255342293149119973622969239858152417678164812112068608 = Fin 89884656743115795386465259539451236680898848947115328636715040578866337902750481566354238661203768010560056939935696678829394884407208311246423715319737062188883946712432742638151109800623047059726541476042502884419075341171231440736956555270413618581675255342293149119973622969239858152417678164812112068608"
proof -
  have "rnd (0 + 89884656743115795386465259539451236680898848947115328636715040578866337902750481566354238661203768010560056939935696678829394884407208311246423715319737062188883946712432742638151109800623047059726541476042502884419075341171231440736956555270413618581675255342293149119973622969239858152417678164812112068608) = Fin (real_of_int 4503599627370496 * 2 ^ 971)"
    by (rule rnd_eval_pos) simp_all
  then show ?thesis by (simp add: dadd_def)
qed

lemma dadd_step_40: "dadd 89884656743115795386465259539451236680898848947115328636715040578866337902750481566354238661203768010560056939935696678829394884407208311246423715319737062188883946712432742638151109800623047059726541476042502884419075341171231440736956555270413618581675255342293149119973622969239858152417678164812112068608 0 = Fin 89884656743115795386465259539451236680898848947115328636715040578866337902750481566354238661203768010560056939935696678829394884407208311246423715319737062188883946712432742638151109800623047059726541476042502884419075341171231440736956555270413618581675255342293149119973622969239858152417678164812112068608"
proof -
  have "rnd (89884656743115795386465259539451236680898848947115328636715040578866337902750481566354238661203768010560056939935696678829394884407208311246423715319737062188883946712432742638151109800623047059726541476042502884419075341171231440736956555270413618581675255342293149119973622969239858152417678164812112068608 + 0) = Fin (real_of_int 4503599627370496 * 2 ^ 971)"
    by (rule rnd_eval_pos) simp_all
  then show ?thesis by (simp add: dadd_def)
qed

lemma dadd_step_41: "dadd 89884656743115795386465259539451236680898848947115328636715040578866337902750481566354238661203768010560056939935696678829394884407208311246423715319737062188883946712432742638151109800623047059726541476042502884419075341171231440736956555270413618581675255342293149119973622969239858152417678164812112068608 89884656743115795386465259539451236680898848947115328636715040578866337902750481566354238661203768010560056939935696678829394884407208311246423715319737062188883946712432742638151109800623047059726541476042502884419075341171231440736956555270413618581675255342293149119973622969239858152417678164812112068608 = PInf"
proof -
  have "rnd (89884656743115795386465259539451236680898848947115328636715040578866337902750481566354238661203768010560056939935696678829394884407208311246423715319737062188883946712432742638151109800623047059726541476042502884419075341171231440736956555270413618581675255342293149119973622969239858152417678164812112068608 + 89884656743115795386465259539451236680898848947115328636715040578866337902750481566354238661203768010560056939935696678829394884407208311246423715319737062188883946712432742638151109800623047059726541476042502884419075341171231440736956555270413618581675255342293149119973622969239858152417678164812112068608) = PInf"
    by (rule rnd_eval_PInf[where k = 972 and n = "4503599627370496"]) simp_all
  then show ?thesis by (simp add: dadd_def)
qed

lemma dadd_step_42: "dadd 100 (- 50) = Fin 50"
proof -
  have "rnd (100 + (- 50)) = Fin (real_of_int 7036874417766400 / 2 ^ 47)"
    by (rule rnd_eval_neg) simp_all
  then show ?thesis by (simp add: dadd_def)
qed

lemma ddiv_step_18: "ddiv 50 100 = Fin (1 / 2)"
proof -
  have "rnd (50 / 100) = Fin (real_of_int 4503599627370496 / 2 ^ 53)"
    by (rule rnd_eval_neg) simp_all
  then show ?thesis by (simp add: ddiv_def)
qed

lemma dadd_step_43: "dadd 200 (- 200) = Fin 0"
  by (simp add: dadd_def rnd_zero)

lemma ddiv_step_19: "ddiv 0 200 = Fin 0"
  by (simp add: ddiv_def rnd_zero)

lemma dmul_step_21: "dmul (1 / 2) 100 = Fin 50"
proof -
  have "rnd ((1 / 2) * 100) = Fin (real_of_int 7036874417766400 / 2 ^ 47)"
    by (rule rnd_eval_neg) simp_all
  then show ?thesis by (simp add: dmul_def)
qed









lemmas beta_spec_steps =
  dadd_step_26 dadd_step_27 ddiv_step_13 dadd_step_21 dadd_step_28 ddiv_step_14 dadd_step_29
  dadd_step_30 dmul_step_17 dadd_step_31 dadd_step_32 dadd_step_33 dmul_step_18 dadd_step_34
  ddiv_step_15 dmul_step_19 dadd_step_35 dmul_step_20 dadd_step_36 ddiv_step_16 ddiv_step_17

lemmas rsi_swinging_steps =
  dadd_step_37 dadd_step_38 dadd_step_39 dadd_step_40 dadd_step_41 dadd_step_17 dbl_step_2

lemmas drawdown_dip_steps =
  dadd_step_42 ddiv_step_18 dadd_step_43 ddiv_step_19 dmul_step_21

section \<open>Facts about the number model\<close>

lemma js_nth_in: "0 \<le> i \<Longrightarrow> i < int (length xs) \<Longrightarrow> js_nth xs i = xs ! nat i"
  by (simp add: js_nth_def)

lemma js_nth_out: "int (length xs) \<le> i \<Longrightarrow> js_nth xs i = Undefined"
  by (simp add: js_nth_def)

lemma js_sub_Undefined: "js_sub x Undefined = NaN"
  by (cases x) (simp_all add: js_sub_def)

lemma js_nth_map_upto_last:
  assumes "a \<le> b"
  shows "js_nth (map f [a..b]) (int (length (map f [a..b])) - 1) = f b"
proof -
  have len: "int (length (map f [a..b])) - 1 = b - a"
    using assms by simp
  have "js_nth (map f [a..b]) (b - a) = map f [a..b] ! nat (b - a)"
    using assms by (intro js_nth_in) simp_all
  also have "\<dots> = f ([a..b] ! nat (b - a))"
    using assms by (intro nth_map) simp
  also have "[a..b] ! nat (b - a) = b"
    using assms by (simp add: nth_upto)
  finally show ?thesis
    by (simp only: len)
qed

text \<open>Operations whose exact result is zero, one or a hundred round to it.\<close>

lemma dadd_inverse: "dadd a (- a) = Fin 0"
  by (simp add: dadd_def rnd_zero)

lemma dadd_zero_zero: "dadd 0 0 = Fin 0"
  by (simp add: dadd_def rnd_zero)

lemma dmul_zero_left: "dmul 0 b = Fin 0"
  by (simp add: dmul_def rnd_zero)

lemma ddiv_zero_left: "ddiv 0 b = Fin 0"
  by (simp add: ddiv_def rnd_zero)

lemma rnd_one: "rnd 1 = Fin 1"
proof -
  have "rnd 1 = Fin (real_of_int 4503599627370496 / 2 ^ 52)"
    by (rule rnd_eval_neg) simp_all
  then show ?thesis by simp
qed

lemma rnd_hundred: "rnd 100 = Fin 100"
proof -
  have "rnd 100 = Fin (real_of_int 7036874417766400 / 2 ^ 46)"
    by (rule rnd_eval_neg) simp_all
  then show ?thesis by simp
qed

lemma js_sum_zeros: "js_sum (replicate k (Fin 0)) = Fin 0"
proof -
  have "foldl js_add (Fin 0) (replicate k (Fin 0)) = Fin 0"
    by (induction k) (simp_all add: dadd_zero_zero)
  then show ?thesis by (simp add: js_sum_def)
qed

text \<open>The literal 0.01 denotes a positive double.\<close>

lemma dbl_hundredth_pos: "0 < dbl (1 / 100)"
proof -
  have "of_int 1 * 2 powi (- 7) \<le> rnd_fin (1 / 100)"
    by (rule rnd_fin_ge_grid) (simp_all add: power_int_minus)
  moreover have "(0::real) < of_int 1 * 2 powi (- 7)" by simp
  ultimately show ?thesis by (simp add: dbl_def)
qed

section \<open>RSI of a flat series\<close>

lemma changes_const:
  assumes "\<forall>c \<in> set data. close c = p"
  shows "changes data = replicate (length data - 1) (Fin 0)"
proof -
  have "\<And>i. i < length data \<Longrightarrow> close (data ! i) = p"
    using assms by simp
  then have "\<forall>i \<in> set [1..<length data].
      js_sub (Fin (close (data ! i))) (Fin (close (data ! (i - 1)))) = Fin 0"
    by (auto simp: js_sub_def dadd_inverse)
  then have "changes data = map (\<lambda>i. Fin 0) [1..<length data]"
    unfolding changes_def by (intro map_cong) auto
  then show ?thesis by (simp add: map_replicate_const)
qed

lemma wilder_zero: "0 < period \<Longrightarrow> wilder period (Fin 0) (Fin 0) = Fin 0"
  by (simp add: wilder_def dmul_zero_left dadd_zero_zero ddiv_zero_left)

lemma rsi_of_zero: "rsi_of (Fin 0) (Fin 0) = Fin 0"
proof -
  have "dbl (1 / 100) \<noteq> 0" using dbl_hundredth_pos by simp
  then have "js_div (Fin 0) (js_or (Fin 0) (Fin (dbl (1 / 100)))) = Fin 0"
    by (simp add: js_or_def ddiv_zero_left)
  moreover have "js_add (Fin 1) (Fin 0) = Fin 1"
    by (simp add: dadd_def rnd_one)
  moreover have "js_div (Fin 100) (Fin 1) = Fin 100"
    by (simp add: ddiv_def rnd_hundred)
  moreover have "js_sub (Fin 100) (Fin 100) = Fin 0"
    by (simp add: js_sub_def dadd_inverse)
  ultimately show ?thesis
    by (simp only: rsi_of_def Let_def)
qed

lemma rsi_loop_zero:
  "0 < period \<Longrightarrow>
   rsi_loop period (Fin 0) (Fin 0) (replicate k (Fin 0, Fin 0)) = replicate k (Fin 0)"
  by (induction k) (simp_all add: wilder_zero rsi_of_zero Let_def)

lemma rsi_values_const:
  assumes "\<forall>c \<in> set data. close c = p" and "0 < period"
  shows "rsi_values data period = replicate (length data - 1 - period) (Fin 0)"
proof -
  have g: "gains data = replicate (length data - 1) (Fin 0)"
    and l: "losses data = replicate (length data - 1) (Fin 0)"
    using changes_const[OF assms(1)] by (simp_all add: gains_def losses_def js_lt_def)
  have z: "zip (replicate (length data - 1) (Fin 0)) (replicate (length data - 1) (Fin 0))
      = replicate (length data - 1) (Fin 0, Fin 0)"
    by (simp add: zip_replicate)
  have avg: "js_div (js_sum (replicate k (Fin 0))) (Fin (real period)) = Fin 0" for k
    using assms(2) by (simp add: js_sum_zeros ddiv_zero_left)
  show ?thesis
    using assms(2) by (simp add: rsi_values_def g l z avg rsi_loop_zero)
qed

text \<open>
  C10. On a candle series whose closing price never changes, with a period of at least
  one and at least \<open>period + 2\<close> candles, \<open>calculateRSI\<close> succeeds, its current value
  is 0 (both averages are 0, the floor of 0.01 under the average loss makes the
  ratio 0) and the signal is \<open>oversold\<close>, not \<open>neutral\<close>. Every step is exact in
  doubles: the differences, sums and quotients are all zero.
\<close>

theorem calculateRSI_constant_close:
  assumes "\<forall>c \<in> set data. close c = p" and "1 \<le> period" and "period + 2 \<le> length data"
  shows "\<exists>r. calculateRSI data period = Inr r \<and> current_value r = Fin 0
           \<and> rsi_signal r = ''oversold''"
proof -
  let ?k = "length data - 1 - period"
  have v: "rsi_values data period = replicate ?k (Fin 0)"
    using rsi_values_const[OF assms(1)] assms(2) by simp
  have k: "0 < ?k" using assms(3) by simp
  define cur where "cur = js_nth (rsi_values data period) (int (length (rsi_values data period)) - 1)"
  have cur: "cur = Fin 0"
    unfolding cur_def v using k by (simp add: js_nth_def)
  have "calculateRSI data period =
      Inr \<lparr> current_value = cur,
            rsi_signal = (if js_gt cur (Fin 70) then ''overbought''
                          else if js_lt cur (Fin 30) then ''oversold'' else ''neutral''),
            strength = js_div (js_abs (js_sub (Fin 50) cur)) (Fin 50),
            historical_values = slice_last 10 (rsi_values data period) \<rparr>"
    using assms(3) by (simp add: calculateRSI_def Let_def cur_def)
  then show ?thesis
    by (simp add: cur js_lt_def)
qed

theorem calculateRSI_constant_close_witness:
  "map close (candles_of (replicate 16 100)) = replicate 16 100 \<and> (1::nat) \<le> 14
   \<and> 14 + 2 \<le> length (candles_of (replicate 16 100))
   \<and> (\<exists>r. calculateRSI (candles_of (replicate 16 100)) 14 = Inr r \<and> current_value r = Fin 0
           \<and> rsi_signal r = ''oversold'')"
  using calculateRSI_constant_close[of "candles_of (replicate 16 100)" 100 14]
  by (simp add: candles_of_def candle_at_def)

section \<open>RSI at and above the minimum length\<close>

lemma length_changes: "length (changes data) = length data - 1"
  by (simp add: changes_def)

lemma length_rsi_loop: "length (rsi_loop period a b gl) = length gl"
  by (induction gl arbitrary: a b) (auto simp: Let_def)

lemma rsi_values_short:
  assumes "length data = period + 1"
  shows "rsi_values data period = []"
proof -
  have "length (zip (gains data) (losses data)) = period"
    using assms by (simp add: gains_def losses_def length_changes)
  then have "drop period (zip (gains data) (losses data)) = []"
    by simp
  then show ?thesis
    by (simp add: rsi_values_def Let_def)
qed

text \<open>
  On a series of exactly \<open>period + 1\<close> candles, which the guard accepts, the smoothing
  loop has nothing left to run on: no RSI value is computed and the current value is
  \<open>undefined\<close>.
\<close>

lemma calculateRSI_no_value_at_minimum:
  assumes "length data = period + 1"
  shows "\<exists>r. calculateRSI data period = Inr r \<and> current_value r = Undefined
           \<and> rsi_signal r = ''neutral'' \<and> historical_values r = []"
  using assms
  by (simp add: calculateRSI_def rsi_values_short js_nth_def js_lt_def slice_last_def)

text \<open>
  Rounding keeps a value inside bounds that are doubles themselves. A multiple of
  \<open>2 ^ 1000\<close> below \<open>2 ^ 1024\<close> is one.
\<close>

lemma rnd_abs_bnd:
  assumes "\<bar>x\<bar> \<le> real k * 2 ^ 1000" "k < 2 ^ 24"
  shows "\<exists>y. rnd x = Fin y \<and> \<bar>y\<bar> \<le> real k * 2 ^ 1000 \<and> (0 \<le> x \<longrightarrow> 0 \<le> y)"
proof -
  have k: "real k < 2 ^ 24" using assms(2) by (simp add: of_nat_less_numeral_power_cancel_iff)
  then have "real k * 2 ^ 1000 < 2 ^ 24 * 2 ^ 1000" by simp
  then have top: "real k * 2 ^ 1000 < 2 ^ 1024" by simp
  moreover have "(2::real) ^ 1024 \<le> 2 powi (1000 + 53)" by simp
  ultimately have lt: "\<bar>x\<bar> < 2 powi (1000 + 53)" using assms(1) by linarith
  have "x \<le> of_int (int k) * 2 powi 1000" using assms(1) by simp
  then have "rnd_fin x \<le> of_int (int k) * 2 powi 1000"
    using lt by (rule rnd_fin_le_grid) simp
  then have up: "rnd_fin x \<le> real k * 2 ^ 1000" by simp
  have "of_int (- int k) * 2 powi 1000 \<le> x" using assms(1) by simp
  then have "of_int (- int k) * 2 powi 1000 \<le> rnd_fin x"
    using lt by (rule rnd_fin_ge_grid) simp
  then have lo: "- (real k * 2 ^ 1000) \<le> rnd_fin x" by simp
  have a: "\<bar>rnd_fin x\<bar> \<le> real k * 2 ^ 1000" using up lo by simp
  then have "\<bar>rnd_fin x\<bar> < 2 ^ 1024" using top by linarith
  then have "rnd x = Fin (rnd_fin x)" by (intro rnd_FinI) simp_all
  then show ?thesis using a rnd_fin_nonneg[of x] by blast
qed

lemma bnd_Fin: "bnd k (Fin y) = (0 \<le> y \<and> y \<le> real k * 2 ^ 1000)"
  by (simp add: bnd_def)

lemma bndE:
  assumes "bnd k v"
  obtains y where "v = Fin y" "0 \<le> y" "y \<le> real k * 2 ^ 1000"
  using assms by (cases v) (simp_all add: bnd_def)

lemma bnd_rnd:
  assumes "0 \<le> x" "x \<le> real k * 2 ^ 1000" "k < 2 ^ 24"
  shows "bnd k (rnd x)"
proof -
  have "\<bar>x\<bar> \<le> real k * 2 ^ 1000" using assms(1,2) by simp
  from rnd_abs_bnd[OF this assms(3)] assms(1) show ?thesis
    by (auto simp: bnd_Fin)
qed

lemma bnd_zero: "bnd k (Fin 0)"
  by (simp add: bnd_Fin)

lemma bnd_add:
  assumes "bnd a u" "bnd b v" "a + b < 2 ^ 24"
  shows "bnd (a + b) (js_add u v)"
proof -
  obtain x where u: "u = Fin x" "0 \<le> x" "x \<le> real a * 2 ^ 1000" using assms(1) by (rule bndE)
  obtain y where v: "v = Fin y" "0 \<le> y" "y \<le> real b * 2 ^ 1000" using assms(2) by (rule bndE)
  have "x + y \<le> real (a + b) * 2 ^ 1000" using u(3) v(3) by (simp add: algebra_simps)
  moreover have "0 \<le> x + y" using u(2) v(2) by simp
  ultimately have "bnd (a + b) (rnd (x + y))" using assms(3) by (intro bnd_rnd)
  then show ?thesis by (simp add: u v dadd_def)
qed

lemma bnd_sum_aux:
  assumes "\<forall>x \<in> set xs. bnd c x" "bnd a acc" "a + c * length xs < 2 ^ 24"
  shows "bnd (a + c * length xs) (foldl js_add acc xs)"
  using assms
proof (induction xs arbitrary: a acc)
  case Nil
  then show ?case by simp
next
  case (Cons x xs)
  have x: "bnd c x" using Cons.prems(1) by simp
  have lt: "a + c < 2 ^ 24" using Cons.prems(3) by simp
  have s: "bnd (a + c) (js_add acc x)" using Cons.prems(2) x lt by (rule bnd_add)
  have "bnd (a + c + c * length xs) (foldl js_add (js_add acc x) xs)"
    using Cons.prems(1,3) by (intro Cons.IH[OF _ s]) (simp_all add: algebra_simps)
  then show ?case by (simp add: algebra_simps)
qed

lemma bnd_sum:
  assumes "\<forall>x \<in> set xs. bnd c x" "c * length xs < 2 ^ 24"
  shows "bnd (c * length xs) (js_sum xs)"
  using bnd_sum_aux[OF assms(1) bnd_zero[of 0]] assms(2) by (simp add: js_sum_def)

lemma bnd_mono: "bnd j v \<Longrightarrow> j \<le> k \<Longrightarrow> bnd k v"
proof -
  assume a: "bnd j v" and le: "j \<le> k"
  obtain y where v: "v = Fin y" "0 \<le> y" "y \<le> real j * 2 ^ 1000" using a by (rule bndE)
  have "real j * 2 ^ 1000 \<le> real k * (2::real) ^ 1000" using le by simp
  then show "bnd k v" using v by (simp add: bnd_Fin)
qed

lemma bnd_div:
  assumes "bnd (c * p) v" "0 < p" "c < 2 ^ 24"
  shows "bnd c (js_div v (Fin (real p)))"
proof -
  obtain y where v: "v = Fin y" "0 \<le> y" "y \<le> real (c * p) * 2 ^ 1000" using assms(1) by (rule bndE)
  have p: "0 < real p" using assms(2) by simp
  have "y \<le> real c * 2 ^ 1000 * real p" using v(3) by (simp add: algebra_simps)
  then have "y / real p \<le> real c * 2 ^ 1000" using p by (simp add: pos_divide_le_eq)
  moreover have "0 \<le> y / real p" using v(2) by simp
  ultimately have "bnd c (rnd (y / real p))" using assms(3) by (intro bnd_rnd)
  then show ?thesis using assms(2) by (simp add: v ddiv_def)
qed

lemma bnd_mul:
  assumes "bnd c v" "c * m < 2 ^ 24"
  shows "bnd (c * m) (js_mul v (Fin (real m)))"
proof -
  obtain y where v: "v = Fin y" "0 \<le> y" "y \<le> real c * 2 ^ 1000" using assms(1) by (rule bndE)
  have "y * real m \<le> real c * 2 ^ 1000 * real m" using v(3) by (intro mult_right_mono) simp_all
  then have "y * real m \<le> real (c * m) * 2 ^ 1000" by (simp add: algebra_simps)
  moreover have "0 \<le> y * real m" using v(2) by simp
  ultimately have "bnd (c * m) (rnd (y * real m))" using assms(2) by (intro bnd_rnd)
  then show ?thesis by (simp add: v dmul_def)
qed

text \<open>
  With closes of magnitude up to \<open>2 ^ 1000\<close> every gain and loss is a finite double
  between 0 and \<open>2 * 2 ^ 1000\<close>, and so are the running averages for periods up to 200.
\<close>

lemma wilder_bnd:
  assumes "1 \<le> period" "period \<le> 200" "bnd 2 avg" "bnd 2 x"
  shows "bnd 2 (wilder period avg x)"
proof -
  have r: "real period - 1 = real (period - 1)" using assms(1) by simp
  have "bnd (2 * (period - 1)) (js_mul avg (Fin (real (period - 1))))"
    using assms(2,3) by (intro bnd_mul) simp_all
  then have "bnd (2 * (period - 1) + 2) (js_add (js_mul avg (Fin (real (period - 1)))) x)"
    using assms(2,4) by (intro bnd_add) simp_all
  moreover have "2 * (period - 1) + 2 = 2 * period" using assms(1) by simp
  ultimately have "bnd (2 * period) (js_add (js_mul avg (Fin (real (period - 1)))) x)"
    by simp
  then have "bnd 2 (js_div (js_add (js_mul avg (Fin (real (period - 1)))) x) (Fin (real period)))"
    using assms(1) by (intro bnd_div) simp_all
  then show ?thesis by (simp only: wilder_def r)
qed

lemma change_bnd:
  assumes "\<bar>a\<bar> \<le> 2 ^ 1000" "\<bar>b\<bar> \<le> 2 ^ 1000"
  shows "\<exists>y. js_sub (Fin a) (Fin b) = Fin y \<and> \<bar>y\<bar> \<le> 2 * 2 ^ 1000"
proof -
  have "\<bar>a + - b\<bar> \<le> real 2 * 2 ^ 1000" using assms by simp
  from rnd_abs_bnd[OF this] show ?thesis
    by (auto simp: js_sub_def dadd_def)
qed

lemma changes_bnd:
  assumes "\<forall>c \<in> set data. \<bar>close c\<bar> \<le> 2 ^ 1000"
  shows "\<forall>v \<in> set (changes data). \<exists>y. v = Fin y \<and> \<bar>y\<bar> \<le> 2 * 2 ^ 1000"
proof
  fix v assume "v \<in> set (changes data)"
  then obtain i where i: "i \<in> set [1..<length data]"
    and v: "v = js_sub (Fin (close (data ! i))) (Fin (close (data ! (i - 1))))"
    by (auto simp: changes_def)
  have "i < length data" "i - 1 < length data" using i by auto
  then have "data ! i \<in> set data" "data ! (i - 1) \<in> set data" by (simp_all only: nth_mem)
  then have "\<bar>close (data ! i)\<bar> \<le> 2 ^ 1000" "\<bar>close (data ! (i - 1))\<bar> \<le> 2 ^ 1000"
    using assms by blast+
  then show "\<exists>y. v = Fin y \<and> \<bar>y\<bar> \<le> 2 * 2 ^ 1000"
    unfolding v by (rule change_bnd)
qed

lemma gains_bnd:
  assumes "\<forall>c \<in> set data. \<bar>close c\<bar> \<le> 2 ^ 1000"
  shows "\<forall>g \<in> set (gains data). bnd 2 g"
proof
  fix g assume "g \<in> set (gains data)"
  then obtain v where v: "v \<in> set (changes data)"
    and g: "g = (if js_gt v (Fin 0) then v else Fin 0)"
    by (auto simp: gains_def)
  obtain y where y: "v = Fin y" "\<bar>y\<bar> \<le> 2 * 2 ^ 1000"
    using changes_bnd[OF assms] v by blast
  have "y \<le> 2 * 2 ^ 1000" using y(2) by (simp only: abs_le_iff)
  then show "bnd 2 g" by (simp add: g y(1) bnd_Fin)
qed

lemma losses_bnd:
  assumes "\<forall>c \<in> set data. \<bar>close c\<bar> \<le> 2 ^ 1000"
  shows "\<forall>l \<in> set (losses data). bnd 2 l"
proof
  fix l assume "l \<in> set (losses data)"
  then obtain v where v: "v \<in> set (changes data)"
    and l: "l = (if js_lt v (Fin 0) then js_abs v else Fin 0)"
    by (auto simp: losses_def)
  obtain y where y: "v = Fin y" "\<bar>y\<bar> \<le> 2 * 2 ^ 1000"
    using changes_bnd[OF assms] v by blast
  have "- y \<le> 2 * 2 ^ 1000" using y(2) by (simp only: abs_le_iff)
  then show "bnd 2 l" by (simp add: l y(1) bnd_Fin js_lt_def)
qed

text \<open>
  From non-negative finite averages the RSI formula gives a double between 0 and 100:
  the ratio is a non-negative double or \<open>Infinity\<close>, one plus the ratio is at least 1,
  and rounding does not leave the interval from 0 to 100.
\<close>

lemma rnd_nonneg_cases:
  assumes "0 \<le> x"
  shows "rnd x = PInf \<or> (\<exists>y. rnd x = Fin y \<and> 0 \<le> y)"
  using rnd_fin_nonneg[OF assms] by (auto simp: rnd_def Let_def)

lemma rnd_ge_one_cases:
  assumes "1 \<le> x"
  shows "rnd x = PInf \<or> (\<exists>y. rnd x = Fin y \<and> 1 \<le> y)"
  using rnd_fin_ge_one[OF assms] by (auto simp: rnd_def Let_def)

lemma rnd_range_100:
  assumes "0 \<le> x" "x \<le> 100"
  shows "\<exists>z. rnd x = Fin z \<and> 0 \<le> z \<and> z \<le> 100"
proof -
  have "x \<le> of_int 25 * 2 powi 2" using assms(2) by simp
  moreover have "\<bar>x\<bar> < 2 powi (2 + 53)" using assms by simp
  ultimately have "rnd_fin x \<le> of_int 25 * 2 powi 2"
    by (rule rnd_fin_le_grid) simp
  then have up: "rnd_fin x \<le> 100" by simp
  have lo: "0 \<le> rnd_fin x" using assms(1) by (rule rnd_fin_nonneg)
  have "\<bar>rnd_fin x\<bar> < 2 ^ 1024" using up lo by simp
  then have "rnd x = Fin (rnd_fin x)" by (intro rnd_FinI) simp_all
  then show ?thesis using up lo by blast
qed

lemma in_range_complement:
  assumes "0 \<le> z" "z \<le> 100"
  shows "in_range (js_sub (Fin 100) (Fin z))"
proof -
  have "0 \<le> 100 + - z" "100 + - z \<le> 100" using assms by simp_all
  from rnd_range_100[OF this] show ?thesis
    by (auto simp: js_sub_def dadd_def in_range_def)
qed

lemma rsi_of_range:
  assumes "0 \<le> a" "0 \<le> b"
  shows "in_range (rsi_of (Fin a) (Fin b))"
proof -
  define d where "d = (if b = 0 then dbl (1 / 100) else b)"
  have d: "js_or (Fin b) (Fin (dbl (1 / 100))) = Fin d" "0 < d"
    using assms(2) dbl_hundredth_pos by (simp_all add: js_or_def d_def)
  define rs where "rs = js_div (Fin a) (Fin d)"
  have rs: "rs = rnd (a / d)" using d(2) by (simp add: rs_def ddiv_def)
  have q: "0 \<le> a / d" using assms(1) d(2) by simp
  define u where "u = js_add (Fin 1) rs"
  have u: "u = PInf \<or> (\<exists>y. u = Fin y \<and> 1 \<le> y)"
  proof -
    consider "rs = PInf" | r where "rs = Fin r" "0 \<le> r"
      using rnd_nonneg_cases[OF q] rs by auto
    then show ?thesis
    proof cases
      case 1
      then show ?thesis by (simp add: u_def)
    next
      case 2
      have "1 \<le> 1 + r" using 2(2) by simp
      from rnd_ge_one_cases[OF this] show ?thesis
        by (simp add: u_def 2(1) dadd_def)
    qed
  qed
  define w where "w = js_div (Fin 100) u"
  have w: "\<exists>z. w = Fin z \<and> 0 \<le> z \<and> z \<le> 100"
  proof -
    consider "u = PInf" | y where "u = Fin y" "1 \<le> y"
      using u by auto
    then show ?thesis
    proof cases
      case 1
      then show ?thesis by (simp add: w_def)
    next
      case 2
      have "100 / y \<le> 100 / 1" using 2(2) by (intro divide_left_mono) simp_all
      moreover have "0 \<le> 100 / y" using 2(2) by simp
      ultimately have "\<exists>z. rnd (100 / y) = Fin z \<and> 0 \<le> z \<and> z \<le> 100"
        by (intro rnd_range_100) simp_all
      then show ?thesis using 2 by (simp add: w_def ddiv_def)
    qed
  qed
  have "rsi_of (Fin a) (Fin b) = js_sub (Fin 100) w"
    by (simp only: rsi_of_def Let_def d(1) w_def u_def rs_def)
  then show ?thesis using w in_range_complement by auto
qed

lemma rsi_loop_range:
  assumes "1 \<le> period" "period \<le> 200" "bnd 2 a" "bnd 2 b"
    and "\<forall>(g, l) \<in> set gl. bnd 2 g \<and> bnd 2 l"
  shows "\<forall>v \<in> set (rsi_loop period a b gl). in_range v"
  using assms(3-)
proof (induction gl arbitrary: a b)
  case Nil
  then show ?case by simp
next
  case (Cons x gl)
  obtain g l where x: "x = (g, l)" by (cases x)
  have gl: "bnd 2 g" "bnd 2 l" using Cons.prems(3) x by auto
  have a': "bnd 2 (wilder period a g)"
    using assms(1,2) Cons.prems(1) gl(1) by (rule wilder_bnd)
  have b': "bnd 2 (wilder period b l)"
    using assms(1,2) Cons.prems(2) gl(2) by (rule wilder_bnd)
  have rest: "\<forall>v \<in> set (rsi_loop period (wilder period a g) (wilder period b l) gl). in_range v"
    using Cons.IH[OF a' b'] Cons.prems(3) by simp
  obtain ya where ya: "wilder period a g = Fin ya" "0 \<le> ya" using a' by (rule bndE)
  obtain yb where yb: "wilder period b l = Fin yb" "0 \<le> yb" using b' by (rule bndE)
  have "in_range (rsi_of (wilder period a g) (wilder period b l))"
    unfolding ya(1) yb(1) using ya(2) yb(2) by (rule rsi_of_range)
  then show ?case
    using rest by (simp add: x Let_def)
qed

lemma rsi_values_range:
  assumes "1 \<le> period" "period \<le> 200" "\<forall>c \<in> set data. \<bar>close c\<bar> \<le> 2 ^ 1000"
  shows "\<forall>v \<in> set (rsi_values data period). in_range v"
proof -
  have g: "\<forall>x \<in> set (take period (gains data)). bnd 2 x"
    using gains_bnd[OF assms(3)] by (auto dest: in_set_takeD)
  have l: "\<forall>x \<in> set (take period (losses data)). bnd 2 x"
    using losses_bnd[OF assms(3)] by (auto dest: in_set_takeD)
  have len: "2 * length (take period xs) \<le> 2 * period" for xs :: "jsnum list"
    by simp
  have sum: "bnd (2 * period) (js_sum (take period xs))"
    if "\<forall>x \<in> set (take period xs). bnd 2 x" for xs
  proof -
    have "2 * length (take period xs) < (2::nat) ^ 24" using assms(2) len[of xs] by simp
    then have "bnd (2 * length (take period xs)) (js_sum (take period xs))"
      using that by (intro bnd_sum)
    then show ?thesis using len[of xs] by (rule bnd_mono)
  qed
  have a: "bnd 2 (js_div (js_sum (take period (gains data))) (Fin (real period)))"
    using sum[OF g] assms(1) by (intro bnd_div) simp_all
  have b: "bnd 2 (js_div (js_sum (take period (losses data))) (Fin (real period)))"
    using sum[OF l] assms(1) by (intro bnd_div) simp_all
  have gl: "\<forall>(g, l) \<in> set (drop period (zip (gains data) (losses data))). bnd 2 g \<and> bnd 2 l"
    using gains_bnd[OF assms(3)] losses_bnd[OF assms(3)]
    by (auto dest!: in_set_dropD dest: set_zip_leftD set_zip_rightD)
  show ?thesis
    using rsi_loop_range[OF assms(1,2) a b gl] by (simp add: rsi_values_def Let_def)
qed

text \<open>
  C5. The claim asks for a defined value between 0 and 100 on every series of at least
  \<open>period + 1\<close> candles. What holds: for a period in the range of the tool's schema,
  from 2 to 200, at least \<open>period + 2\<close> candles, and closes of magnitude up to
  \<open>2 ^ 1000\<close>, \<open>calculateRSI\<close> succeeds and its current value is a double between 0 and
  100.
\<close>

theorem calculateRSI_range:
  assumes "\<forall>c \<in> set data. \<bar>close c\<bar> \<le> 2 ^ 1000"
    and "2 \<le> period" and "period \<le> 200" and "period + 2 \<le> length data"
  shows "\<exists>r. calculateRSI data period = Inr r \<and> in_range (current_value r)"
proof -
  let ?vs = "rsi_values data period"
  have "length ?vs = length data - 1 - period"
    by (simp add: rsi_values_def Let_def length_rsi_loop gains_def losses_def length_changes)
  then have ne: "?vs \<noteq> []" using assms(4) by auto
  then have "js_nth ?vs (int (length ?vs) - 1) = last ?vs"
    by (simp add: js_nth_def last_conv_nth nat_diff_distrib')
  moreover have "in_range (last ?vs)"
    using rsi_values_range[of period data] assms(1-3) ne by (simp add: last_in_set)
  ultimately show ?thesis
    using assms(4) by (simp add: calculateRSI_def Let_def)
qed

theorem calculateRSI_range_witness:
  "list_all (\<lambda>c. \<bar>close c\<bar> \<le> 2 ^ 1000) (scenario_a @ [candle_at ''2024-01-01'' 115])
   \<and> (2::nat) \<le> 14 \<and> (14::nat) \<le> 200
   \<and> 14 + 2 \<le> length (scenario_a @ [candle_at ''2024-01-01'' 115])
   \<and> (\<exists>r. calculateRSI (scenario_a @ [candle_at ''2024-01-01'' 115]) 14 = Inr r
           \<and> in_range (current_value r))"
  using calculateRSI_range[of "scenario_a @ [candle_at ''2024-01-01'' 115]" 14]
  by (simp add: scenario_a_def candles_of_def candle_at_def)

text \<open>
  Two series on which the claim fails. The specification's fifteen closes at period 14:
  the guard accepts them and the current value is \<open>undefined\<close>. Nine closes swinging
  between 1 and \<open>2 ^ 1023\<close> at period 4: the sums of the first four gains and of the
  first four losses both overflow to \<open>Infinity\<close>, their ratio is NaN, and so is the
  current value.
\<close>

theorem calculateRSI_range_counterexample:
  "length scenario_a = 14 + 1
   \<and> (\<exists>r. calculateRSI scenario_a 14 = Inr r \<and> current_value r = Undefined)
   \<and> length swinging = 4 + 5
   \<and> (\<exists>r. calculateRSI swinging 4 = Inr r \<and> current_value r = NaN)"
proof -
  have a: "length scenario_a = 14 + 1" by (simp add: scenario_a_def candles_of_def)
  have b: "\<exists>r. calculateRSI scenario_a 14 = Inr r \<and> current_value r = Undefined"
    using calculateRSI_no_value_at_minimum[OF a] by blast
  have c: "length swinging = 4 + 5" by (simp add: swinging_def candles_of_def)
  have ch: "changes swinging =
      [Fin (2 ^ 1023), Fin (- (2 ^ 1023)), Fin (2 ^ 1023), Fin (- (2 ^ 1023)),
       Fin (2 ^ 1023), Fin (- (2 ^ 1023)), Fin (2 ^ 1023), Fin (- (2 ^ 1023))]"
    by (simp add: changes_def swinging_def candles_of_def candle_at_def upt_rec js_sub_def
        rsi_swinging_steps)
  have v: "rsi_values swinging 4 = [NaN, NaN, NaN, NaN]"
    by (simp add: rsi_values_def gains_def losses_def ch js_lt_def js_sum_def Let_def
        wilder_def rsi_of_def js_or_def js_sub_def inf_signed_def rsi_swinging_steps)
  have d: "\<exists>r. calculateRSI swinging 4 = Inr r \<and> current_value r = NaN"
    by (simp add: calculateRSI_def v Let_def js_nth_def c)
  show ?thesis using a b c d by blast
qed

section \<open>MACD on the default periods\<close>

lemma length_ema_loop: "length (ema_loop m prev ps) = length ps"
  by (induction ps arbitrary: prev) (simp_all add: Let_def)

lemma length_calculateEMAValues:
  "prices \<noteq> [] \<Longrightarrow> length (calculateEMAValues prices period) = length prices"
  by (cases prices) (simp_all add: calculateEMAValues_def Let_def length_ema_loop)

text \<open>
  With a fast period below the slow one, the index \<open>i - (fastPeriod - slowPeriod)\<close> lies
  to the right of \<open>i\<close>; at the last \<open>i\<close> it is past the end of the slow average, so the
  last entry of the MACD line subtracts \<open>undefined\<close>.
\<close>

lemma macd_line_last:
  assumes "closes \<noteq> []" "slowPeriod \<le> int (length closes)" "fastPeriod < slowPeriod"
  shows "js_nth (macd_line_values closes fastPeriod slowPeriod)
           (int (length (macd_line_values closes fastPeriod slowPeriod)) - 1) = NaN"
proof -
  let ?n = "int (length closes)"
  let ?fast = "calculateEMAValues closes fastPeriod"
  let ?slow = "calculateEMAValues closes slowPeriod"
  let ?f = "\<lambda>i. js_sub (js_nth ?fast i) (js_nth ?slow (i - (fastPeriod - slowPeriod)))"
  have lf: "length ?fast = length closes" and ls: "length ?slow = length closes"
    using assms(1) by (simp_all add: length_calculateEMAValues)
  have m: "macd_line_values closes fastPeriod slowPeriod = map ?f [slowPeriod - 1 .. ?n - 1]"
    by (simp add: macd_line_values_def Let_def lf)
  have "js_nth ?slow (?n - 1 - (fastPeriod - slowPeriod)) = Undefined"
    using assms(3) by (intro js_nth_out) (simp add: ls)
  then have "?f (?n - 1) = NaN"
    by (simp only: js_sub_Undefined)
  moreover have "slowPeriod - 1 \<le> ?n - 1"
    using assms(2) by simp
  ultimately show ?thesis
    unfolding m by (simp only: js_nth_map_upto_last)
qed

text \<open>
  C1. The claim asks for \<open>bullish\<close> on every rising series of at least 35 candles. The
  code cannot return it: on every series of at least 35 candles, rising or not, the
  reported MACD line is NaN, the comparison with the signal line is false, and the
  signal is \<open>bearish\<close>.
\<close>

theorem calculateMACD_default_bearish:
  assumes "35 \<le> length data"
  shows "\<exists>r. calculateMACD data 12 26 9 = Inr r \<and> macd_line r = NaN
           \<and> macd_signal r = ''bearish''"
proof -
  let ?closes = "map (\<lambda>d. Fin (close d)) data"
  have ne: "?closes \<noteq> []" using assms by auto
  have "js_nth (macd_line_values ?closes 12 26)
           (int (length (macd_line_values ?closes 12 26)) - 1) = NaN"
    using assms by (intro macd_line_last[OF ne]) simp_all
  then show ?thesis
    using assms by (simp add: calculateMACD_def Let_def)
qed

theorem calculateMACD_default_bearish_witness:
  "35 \<le> length (candles_of (map real [1..<36]))
   \<and> (\<exists>r. calculateMACD (candles_of (map real [1..<36])) 12 26 9 = Inr r \<and> macd_line r = NaN
           \<and> macd_signal r = ''bearish'')"
  using calculateMACD_default_bearish[of "candles_of (map real [1..<36])"]
  by (simp add: candles_of_def)

section \<open>Value at risk and expected shortfall\<close>













section \<open>Correlation of a series with itself\<close>






section \<open>Beta\<close>

text \<open>
  C4. The claim has series of different lengths aligned by trimming. What holds: on
  series of different lengths \<open>calculateBeta\<close> returns the default 1; the guard in its
  first statement answers before any alignment.
\<close>

theorem calculateBeta_mismatch_default:
  assumes "length returns \<noteq> length benchmarkReturns"
  shows "calculateBeta returns benchmarkReturns = Fin 1"
  using assms by (simp add: calculateBeta_def)

theorem calculateBeta_mismatch_default_witness:
  "length [1, 2, 4 :: real] \<noteq> length [1, 2 :: real] \<and> calculateBeta [1, 2, 4] [1, 2] = Fin 1"
  using calculateBeta_mismatch_default[of "[1, 2, 4]" "[1, 2]"]
  by simp

text \<open>
  An asset series of three returns against a benchmark of two: trimmed to the last two,
  covariance over variance is 2; the code returns 1.
\<close>

theorem calculateBeta_mismatch_counterexample:
  "2 \<le> length [1, 2, 4 :: real] \<and> 2 \<le> length [1, 2 :: real]
   \<and> calculateBeta [1, 2, 4] [1, 2] = Fin 1 \<and> trimmed_beta_spec [1, 2, 4] [1, 2] = Fin 2"
  by (simp add: calculateBeta_def trimmed_beta_spec_def calculateCovariance_def
      calculateVariance_def mean_of_def js_sum_def js_square_def js_sub_def Let_def
      beta_spec_steps)

section \<open>The aggregated signal\<close>







section \<open>Maximum drawdown\<close>

text \<open>
  C7. On the closes 100, 50, 200 the worst decline runs from the first candle at 100 to
  the second at 50. The descriptor reports a decline of 50 percent with the right
  dates and trough price, but the peak price of the candle after the decline, 200, and
  a duration of -1 day: both are read from the running peak as it stands when the loop
  has ended.
\<close>

theorem calculateMaxDrawdown_dip_then_high:
  "calculateMaxDrawdown dip_then_high =
     \<lparr> max_drawdown_percent = Fin 50, peak_price = Fin 200, trough_price = Fin 50,
       start_date = ''2024-01-01'', end_date = ''2024-01-02'', duration_days = - 1 \<rparr>"
  by (simp add: calculateMaxDrawdown_def dip_then_high_def dated_def candle_at_def
      drawdown_init_def drawdown_step_def js_nth_def js_sub_def Let_def upt_rec
      drawdown_dip_steps)

section \<open>The guard of the risk-metrics operation\<close>

lemma length_calculateReturns: "length (calculateReturns data) = length data - 1"
  by (simp add: calculateReturns_def)

text \<open>
  C2. The claim puts the limit at 10 return observations, that is 11 candles. What holds:
  the operation fails exactly when the series has fewer than 10 candles, that is fewer
  than 9 return observations, with the insufficient-data message; otherwise it passes
  the check and computes on \<open>length - 1\<close> returns.
\<close>

theorem calculateRiskMetrics_guard:
  "isl (calculateRiskMetrics symbol historicalData) = (length historicalData < 10)
   \<and> (length historicalData < 10) = (length (calculateReturns historicalData) < 9)
   \<and> (case calculateRiskMetrics symbol historicalData of
         Inl e \<Rightarrow> e = Error (''Failed to calculate risk metrics for '' @ symbol
                       @ '': Error: Insufficient data for risk calculations'')
       | Inr r \<Rightarrow> data_points r = length historicalData
                 \<and> length (return_series r) = length historicalData - 1)"
  by (auto simp: calculateRiskMetrics_def Let_def length_calculateReturns)

theorem calculateRiskMetrics_guard_witness:
  "\<not> isl (calculateRiskMetrics ''ETH'' ten_candles)
   \<and> isl (calculateRiskMetrics ''ETH'' (take 9 ten_candles))"
  using calculateRiskMetrics_guard[of "''ETH''" ten_candles]
    calculateRiskMetrics_guard[of "''ETH''" "take 9 ten_candles"]
  by (simp add: ten_candles_def candles_of_def)

text \<open>Ten candles give nine returns and are accepted.\<close>

theorem calculateRiskMetrics_ten_candles_counterexample:
  "length ten_candles = 10 \<and> length (calculateReturns ten_candles) = 9
   \<and> \<not> isl (calculateRiskMetrics ''ETH'' ten_candles)"
  by (simp add: calculateRiskMetrics_def calculateReturns_def ten_candles_def candles_of_def)

end
